theory Spec2Isabelle
  imports Complex_Main "HOL-Library.Word" "HOL-Library.Multiset"
begin

section \<open>Relaypoint: route matcher, load balancers, rate limiter, proxy pipeline\<close>

text \<open>
  A shallow embedding of the hot path of the relaypoint gateway (Go).  Go strings are byte
  sequences and are modelled as \<open>string\<close> (a \<open>char list\<close>).  Functions of the Go standard
  library whose full behaviour is outside the repository (\<open>strings.ToLower\<close>,
  \<open>strings.ToUpper\<close>, \<open>sort.Slice\<close>) are taken as parameters \<open>lw\<close>, \<open>up\<close>, \<open>srt\<close>; the
  theorems hold for every such function that meets the stated contract.
\<close>

subsection \<open>The functions of package \<open>strings\<close> that the router uses\<close>

text \<open>\<open>strings.Trim(s, "/")\<close>: every leading and trailing slash removed.\<close>

definition Trim :: "string \<Rightarrow> char \<Rightarrow> string" where
  "Trim s c = rev (dropWhile (\<lambda>x. x = c) (rev (dropWhile (\<lambda>x. x = c) s)))"

text \<open>\<open>strings.Split(s, "/")\<close>: the pieces between separators; \<open>Split "" "/"\<close> is \<open>[""]\<close>.\<close>

fun Split :: "string \<Rightarrow> char \<Rightarrow> string list" where
  "Split [] c = [[]]"
| "Split (x # xs) c =
     (if x = c then [] # Split xs c
      else (case Split xs c of [] \<Rightarrow> [[x]] | p # ps \<Rightarrow> (x # p) # ps))"

text \<open>\<open>strings.Join(parts, "/")\<close>.\<close>

fun Join :: "string list \<Rightarrow> char \<Rightarrow> string" where
  "Join [] c = []"
| "Join [p] c = p"
| "Join (p # q # ps) c = p @ c # Join (q # ps) c"

definition HasPrefix :: "string \<Rightarrow> string \<Rightarrow> bool" where
  "HasPrefix s p = (take (length p) s = p)"

definition HasSuffix :: "string \<Rightarrow> string \<Rightarrow> bool" where
  "HasSuffix s p = (length p \<le> length s \<and> drop (length s - length p) s = p)"

definition TrimPrefix :: "string \<Rightarrow> string \<Rightarrow> string" where
  "TrimPrefix s p = (if HasPrefix s p then drop (length p) s else s)"

definition TrimSuffix :: "string \<Rightarrow> string \<Rightarrow> string" where
  "TrimSuffix s p = (if HasSuffix s p then take (length s - length p) s else s)"

text \<open>\<open>strings.Index(s, ":")\<close>, with \<open>None\<close> for Go's \<open>-1\<close>.\<close>

definition Index :: "string \<Rightarrow> char \<Rightarrow> nat option" where
  "Index s c = (if c \<in> set s then Some (length (takeWhile (\<lambda>x. x \<noteq> c) s)) else None)"

text \<open>
  A concrete lowering and raising used to evaluate the model on inputs: the ASCII letters
  are mapped, every other byte is kept.  On ASCII input this is what Go computes.
\<close>

definition lowerChar :: "char \<Rightarrow> char" where
  "lowerChar c =
     (case map_of (zip ''ABCDEFGHIJKLMNOPQRSTUVWXYZ'' ''abcdefghijklmnopqrstuvwxyz'') c of
        None \<Rightarrow> c | Some d \<Rightarrow> d)"

definition upperChar :: "char \<Rightarrow> char" where
  "upperChar c =
     (case map_of (zip ''abcdefghijklmnopqrstuvwxyz'' ''ABCDEFGHIJKLMNOPQRSTUVWXYZ'') c of
        None \<Rightarrow> c | Some d \<Rightarrow> d)"

definition asciiLower :: "string \<Rightarrow> string" where
  "asciiLower s = map lowerChar s"

definition asciiUpper :: "string \<Rightarrow> string" where
  "asciiUpper s = map upperChar s"

subsection \<open>Package \<open>router\<close>: data\<close>

record segment =
  seg_value :: string
  isParam :: bool
  isWild :: bool

record RouteRateLimit =
  RequestsPerSecond :: int
  BurstSize :: int
  Enabled :: bool

text \<open>
  \<open>config.Route\<close> (the fields \<open>Timeout\<close> and \<open>RetryCount\<close> are read nowhere in the
  packages modelled here).
\<close>

record cfgRoute =
  cfgName :: string
  cfgHost :: string
  cfgPath :: string
  cfgMethods :: "string list"
  cfgUpstream :: string
  cfgStripPath :: bool
  cfgHeaders :: "string \<rightharpoonup> string"
  cfgRateLimit :: "RouteRateLimit option"

text \<open>
  \<open>router.Route\<close>.  \<open>Methods\<close> is a \<open>map[string]bool\<close> that only ever stores \<open>true\<close>: the
  set of its keys.  A nil \<open>PathParams\<close> map reads like the empty map.
\<close>

record Route =
  Name :: string
  Host :: string
  Path :: string
  Pattern :: string
  Methods :: "string set"
  Upstream :: string
  StripPath :: bool
  Headers :: "string \<rightharpoonup> string"
  RateLimit :: "RouteRateLimit option"
  PathParams :: "string \<rightharpoonup> string"

text \<open>
  \<open>routeEntry\<close> holds a pointer to its \<open>Route\<close>.  Route objects live in a store indexed by
  address; \<open>nextAddr\<close> is the next free address, so that allocation is explicit and a
  write through a shared pointer would be visible.
\<close>

record routeEntry =
  route :: nat
  segments :: "segment list"
  isWildcard :: bool
  priority :: int

record Router =
  routes :: "routeEntry list"
  objs :: "nat \<Rightarrow> Route"
  nextAddr :: nat

definition zeroRoute :: Route where
  "zeroRoute = \<lparr>Name = [], Host = [], Path = [], Pattern = [], Methods = {}, Upstream = [],
     StripPath = False, Headers = Map.empty, RateLimit = None, PathParams = Map.empty\<rparr>"

definition emptyRouter :: Router where
  "emptyRouter = \<lparr>routes = [], objs = (\<lambda>_. zeroRoute), nextAddr = 0\<rparr>"

record Request =
  reqHost :: string
  reqMethod :: string
  reqPath :: string

subsection \<open>Pattern compilation\<close>

text \<open>One iteration of the loop of \<open>parseSegments\<close>: the \<open>switch\<close> on a pattern part.\<close>

definition parsePart :: "(string \<Rightarrow> string) \<Rightarrow> string \<Rightarrow> segment" where
  "parsePart lw part =
     (if part = ''*'' \<or> part = ''**'' then \<lparr>seg_value = part, isParam = False, isWild = True\<rparr>
      else if HasPrefix part '':'' then \<lparr>seg_value = drop 1 part, isParam = True, isWild = False\<rparr>
      else if HasPrefix part ''{'' \<and> HasSuffix part ''}''
        then \<lparr>seg_value = take (length part - 1 - 1) (drop 1 part), isParam = True, isWild = False\<rparr>
      else \<lparr>seg_value = lw part, isParam = False, isWild = False\<rparr>)"

definition parseSegments :: "(string \<Rightarrow> string) \<Rightarrow> string \<Rightarrow> segment list" where
  "parseSegments lw path =
     (let p = Trim path (CHR ''/'') in
      if p = [] then [] else map (parsePart lw) (Split p (CHR ''/'')))"

text \<open>
  \<open>calculatePriority\<close>.  Go's \<open>int\<close> has 64 bits; the value stays within 13 times the
  number of segments, so it is modelled without wrap-around.
\<close>

definition calculatePriority :: "segment list \<Rightarrow> int" where
  "calculatePriority segs =
     foldl (\<lambda>p seg. if isWild seg then p - 5 else if isParam seg then p - 2 else p + 3)
       (int (length segs) * 10) segs"

definition hasWildcard :: "segment list \<Rightarrow> bool" where
  "hasWildcard segs = list_ex isWild segs"

subsection \<open>Path matching\<close>

text \<open>
  The loop of \<open>matchPath\<close>.  The indices \<open>si\<close> and \<open>pi\<close> only move forward together with
  the lists, so the loop is a recursion on the segments left and the path parts left;
  \<open>params\<close> is the map built so far.  The result is the pair Go returns; a nil map is
  \<open>Map.empty\<close>.
\<close>

fun matchPath_loop ::
  "(string \<Rightarrow> string) \<Rightarrow> segment list \<Rightarrow> string list \<Rightarrow> (string \<rightharpoonup> string)
     \<Rightarrow> (string \<rightharpoonup> string) \<times> bool" where
  "matchPath_loop lw [] parts params = (params, parts = [])"
| "matchPath_loop lw (seg # segs) parts params =
     (if isWild seg then
        (if seg_value seg = ''**''
         then ((if parts \<noteq> [] then params(''**'' \<mapsto> Join parts (CHR ''/'')) else params), True)
         else (case parts of [] \<Rightarrow> (Map.empty, False)
               | p # ps \<Rightarrow> matchPath_loop lw segs ps params))
      else if isParam seg then
        (case parts of [] \<Rightarrow> (Map.empty, False)
         | p # ps \<Rightarrow> matchPath_loop lw segs ps (params(seg_value seg \<mapsto> p)))
      else
        (case parts of [] \<Rightarrow> (Map.empty, False)
         | p # ps \<Rightarrow> if lw p \<noteq> seg_value seg then (Map.empty, False)
                    else matchPath_loop lw segs ps params))"

text \<open>The path parts of a request path: \<open>nil\<close> for the empty trimmed path.\<close>

definition pathParts :: "string \<Rightarrow> string list" where
  "pathParts path =
     (let p = Trim path (CHR ''/'') in if p = [] then [] else Split p (CHR ''/''))"

definition matchPath ::
  "(string \<Rightarrow> string) \<Rightarrow> segment list \<Rightarrow> string \<Rightarrow> (string \<rightharpoonup> string) \<times> bool" where
  "matchPath lw segs path =
     (if segs = [] then (Map.empty, Trim path (CHR ''/'') = [])
      else matchPath_loop lw segs (pathParts path) Map.empty)"

definition matchWildcardHost :: "string \<Rightarrow> string \<Rightarrow> bool" where
  "matchWildcardHost pattern host =
     (if \<not> HasPrefix pattern ''*.'' then False else HasSuffix host (drop 1 pattern))"

subsection \<open>Router construction and \<open>Match\<close>\<close>

definition mkMethods :: "(string \<Rightarrow> string) \<Rightarrow> string list \<Rightarrow> string set" where
  "mkMethods up ms = (if ms = [] then {''*''} else set (map up ms))"

text \<open>
  The loop of \<open>router.New\<close>: one \<open>Route\<close> object is allocated per configured route and
  its entry appended.
\<close>

fun New_loop ::
  "(string \<Rightarrow> string) \<Rightarrow> (string \<Rightarrow> string) \<Rightarrow> cfgRoute list \<Rightarrow> Router \<Rightarrow> Router" where
  "New_loop lw up [] r = r"
| "New_loop lw up (cfg # cfgs) r =
     (let rt = \<lparr>Name = cfgName cfg, Host = lw (cfgHost cfg), Path = cfgPath cfg,
                Pattern = cfgPath cfg, Methods = mkMethods up (cfgMethods cfg),
                Upstream = cfgUpstream cfg, StripPath = cfgStripPath cfg,
                Headers = cfgHeaders cfg, RateLimit = cfgRateLimit cfg,
                PathParams = Map.empty\<rparr>;
          a = nextAddr r;
          segs = parseSegments lw (cfgPath cfg);
          entry = \<lparr>route = a, segments = segs, isWildcard = hasWildcard segs,
                   priority = calculatePriority segs\<rparr>
      in New_loop lw up cfgs
           (r\<lparr>routes := routes r @ [entry], objs := (objs r)(a := rt), nextAddr := a + 1\<rparr>))"

text \<open>
  \<open>router.New\<close>; \<open>srt\<close> is \<open>sort.Slice\<close> with the comparison
  \<open>routes[i].priority > routes[j].priority\<close>.
\<close>

definition New ::
  "(string \<Rightarrow> string) \<Rightarrow> (string \<Rightarrow> string) \<Rightarrow> (routeEntry list \<Rightarrow> routeEntry list)
     \<Rightarrow> cfgRoute list \<Rightarrow> Router" where
  "New lw up srt cfgs = (let r = New_loop lw up cfgs emptyRouter in r\<lparr>routes := srt (routes r)\<rparr>)"

text \<open>What \<open>sort.Slice\<close> guarantees for that comparison (it is not a stable sort).\<close>

definition sortContract :: "(routeEntry list \<Rightarrow> routeEntry list) \<Rightarrow> bool" where
  "sortContract srt =
     (\<forall>es. mset (srt es) = mset es \<and> sorted_wrt (\<lambda>a b. priority b \<le> priority a) (srt es))"

text \<open>The host of the request: lowered, and cut at the first colon.\<close>

definition requestHost :: "(string \<Rightarrow> string) \<Rightarrow> Request \<Rightarrow> string" where
  "requestHost lw req =
     (let host = lw (reqHost req) in
      case Index host (CHR '':'') of None \<Rightarrow> host | Some idx \<Rightarrow> take idx host)"

definition hostMatches :: "Route \<Rightarrow> string \<Rightarrow> bool" where
  "hostMatches rt host =
     (\<not> (Host rt \<noteq> [] \<and> Host rt \<noteq> host \<and> \<not> matchWildcardHost (Host rt) host))"

definition methodMatches :: "Route \<Rightarrow> string \<Rightarrow> bool" where
  "methodMatches rt method = (''*'' \<in> Methods rt \<or> method \<in> Methods rt)"

text \<open>
  The loop of \<open>Match\<close> over the sorted entries: the first entry that passes the host,
  method and path checks, with the parameters \<open>matchPath\<close> captured.
\<close>

fun Match_loop ::
  "(string \<Rightarrow> string) \<Rightarrow> (nat \<Rightarrow> Route) \<Rightarrow> routeEntry list \<Rightarrow> string \<Rightarrow> string \<Rightarrow> string
     \<Rightarrow> (routeEntry \<times> (string \<rightharpoonup> string)) option" where
  "Match_loop lw h [] host method path = None"
| "Match_loop lw h (entry # es) host method path =
     (if \<not> hostMatches (h (route entry)) host then Match_loop lw h es host method path
      else if \<not> methodMatches (h (route entry)) method then Match_loop lw h es host method path
      else (case matchPath lw (segments entry) path of
              (params, ok) \<Rightarrow>
                if \<not> ok then Match_loop lw h es host method path
                else Some (entry, params)))"

text \<open>
  \<open>Router.Match\<close>: on a hit the route is copied (\<open>matched := *entry.route\<close>), the copy
  gets the parameters and its address is returned; \<open>None\<close> is Go's \<open>nil\<close>.
\<close>

definition Match :: "(string \<Rightarrow> string) \<Rightarrow> Request \<Rightarrow> Router \<Rightarrow> nat option \<times> Router" where
  "Match lw req r =
     (case Match_loop lw (objs r) (routes r) (requestHost lw req) (reqMethod req) (reqPath req) of
        None \<Rightarrow> (None, r)
      | Some (entry, params) \<Rightarrow>
          (let matched = (objs r (route entry))\<lparr>PathParams := params\<rparr>;
               a = nextAddr r
           in (Some a, r\<lparr>objs := (objs r)(a := matched), nextAddr := a + 1\<rparr>)))"

subsection \<open>\<open>Route.StripPrefix\<close>\<close>

fun StripPrefix_loop :: "segment list \<Rightarrow> string \<Rightarrow> string" where
  "StripPrefix_loop [] prefix = prefix"
| "StripPrefix_loop (seg # segs) prefix =
     (if isWild seg \<or> isParam seg then prefix
      else StripPrefix_loop segs (prefix @ seg_value seg @ ''/''))"

definition StripPrefix :: "(string \<Rightarrow> string) \<Rightarrow> Route \<Rightarrow> string \<Rightarrow> string" where
  "StripPrefix lw rt path =
     (if \<not> StripPath rt then path
      else (let segs = parseSegments lw (Pattern rt);
                prefix = TrimSuffix (StripPrefix_loop segs ''/'') ''/''
            in if prefix = ''/'' then path else TrimPrefix path prefix))"

text \<open>
  The strippable prefix in the words of the specification: the longest leading run of
  literal segments of the pattern, each preceded by a slash.
\<close>

definition literalRun :: "segment list \<Rightarrow> segment list" where
  "literalRun segs = takeWhile (\<lambda>s. \<not> isWild s \<and> \<not> isParam s) segs"

definition literalPrefix :: "(string \<Rightarrow> string) \<Rightarrow> string \<Rightarrow> string" where
  "literalPrefix lw pattern =
     concat (map (\<lambda>s. CHR ''/'' # seg_value s) (literalRun (parseSegments lw pattern)))"

subsection \<open>Notions used to state the properties of the router\<close>

text \<open>An entry matches a request: it passes the three checks of the loop of \<open>Match\<close>.\<close>

definition routeMatches :: "(string \<Rightarrow> string) \<Rightarrow> Router \<Rightarrow> routeEntry \<Rightarrow> Request \<Rightarrow> bool" where
  "routeMatches lw r e req =
     (hostMatches (objs r (route e)) (requestHost lw req)
      \<and> methodMatches (objs r (route e)) (reqMethod req)
      \<and> snd (matchPath lw (segments e) (reqPath req)))"

text \<open>
  The priority in the words of the specification: ten per segment, plus three per literal,
  minus two per named parameter, minus five per wildcard.
\<close>

definition specPriority :: "segment list \<Rightarrow> int" where
  "specPriority segs =
     10 * int (length segs)
     + 3 * int (length (filter (\<lambda>s. \<not> isWild s \<and> \<not> isParam s) segs))
     - 2 * int (length (filter isParam segs))
     - 5 * int (length (filter isWild segs))"

text \<open>Every entry points to an allocated route object.\<close>

definition wfRouter :: "Router \<Rightarrow> bool" where
  "wfRouter r = (\<forall>e\<in>set (routes r). route e < nextAddr r)"

text \<open>What \<open>router.New\<close> establishes for each entry.\<close>

definition entriesCompiled :: "(string \<Rightarrow> string) \<Rightarrow> Router \<Rightarrow> bool" where
  "entriesCompiled lw r =
     (\<forall>e\<in>set (routes r). route e < nextAddr r
        \<and> segments e = parseSegments lw (Pattern (objs r (route e)))
        \<and> priority e = calculatePriority (segments e))"

text \<open>A sequence of \<open>Match\<close> calls on the same router, with the addresses they return.\<close>

fun Match_seq ::
  "(string \<Rightarrow> string) \<Rightarrow> Request list \<Rightarrow> Router \<Rightarrow> nat option list \<times> Router" where
  "Match_seq lw [] r = ([], r)"
| "Match_seq lw (q # qs) r =
     (case Match lw q r of (a, r1) \<Rightarrow>
        (case Match_seq lw qs r1 of (as, r2) \<Rightarrow> (a # as, r2)))"

text \<open>
  The routes of the repository's test \<open>TestRouter_Priority\<close>, a sort that meets the
  contract of \<open>sort.Slice\<close>, and a request.
\<close>

definition mkCfg :: "string \<Rightarrow> string \<Rightarrow> cfgRoute" where
  "mkCfg path upstream = \<lparr>cfgName = [], cfgHost = [], cfgPath = path, cfgMethods = [],
     cfgUpstream = upstream, cfgStripPath = False, cfgHeaders = Map.empty, cfgRateLimit = None\<rparr>"

definition priorityTestRoutes :: "cfgRoute list" where
  "priorityTestRoutes = [mkCfg ''/**'' ''catchall'', mkCfg ''/api/**'' ''api'',
     mkCfg ''/api/v1/users'' ''users-exact'', mkCfg ''/api/v1/*'' ''v1'']"

definition sortByPriority :: "routeEntry list \<Rightarrow> routeEntry list" where
  "sortByPriority es = sort_key (\<lambda>e. - priority e) es"

definition priorityRouter :: Router where
  "priorityRouter = New asciiLower asciiUpper sortByPriority priorityTestRoutes"

definition usersRequest :: Request where
  "usersRequest = \<lparr>reqHost = ''example.com'', reqMethod = ''GET'', reqPath = ''/api/v1/users''\<rparr>"

section \<open>Package \<open>loadbalancer\<close>\<close>

text \<open>
  A balancer owns its targets: \<open>proxy.New\<close> allocates one \<open>Target\<close> object per slot of
  the slice it hands to the balancer.  The objects are therefore kept in the balancer's
  own list, and a \<open>*Target\<close> is the index of its slot; \<open>None\<close> is \<open>nil\<close>.  The
  atomic fields are plain fields: every function below runs to its end before another one
  starts.
\<close>

record Target =
  URL :: string
  Weight :: int
  Healthy :: bool
  Connections :: int

text \<open>A function that returns, or panics (an index out of range).\<close>

datatype 'a outcome = Return 'a | Panic

subsection \<open>Round robin\<close>

record RoundRobin =
  rr_targets :: "Target list"
  rr_current :: "64 word"

definition NewRoundRobin :: "Target list \<Rightarrow> RoundRobin" where
  "NewRoundRobin ts = \<lparr>rr_targets = map (\<lambda>t. t\<lparr>Healthy := True\<rparr>) ts, rr_current = 0\<rparr>"

text \<open>
  The loop of \<open>RoundRobin.Next\<close>, by the number of iterations left.  The counter is a
  \<open>uint64\<close> and wraps; the length of a slice is below \<open>2^63\<close>, so \<open>uint64(n)\<close> is \<open>n\<close>.
  After \<open>n\<close> iterations without a live target, \<open>targets[0]\<close> is returned.
\<close>

fun RoundRobin_loop :: "nat \<Rightarrow> RoundRobin \<Rightarrow> nat option \<times> RoundRobin" where
  "RoundRobin_loop 0 rr = (Some 0, rr)"
| "RoundRobin_loop (Suc k) rr =
     (let c = rr_current rr + 1;
          rr1 = rr\<lparr>rr_current := c\<rparr>;
          idx = unat c mod length (rr_targets rr)
      in if Healthy (rr_targets rr ! idx) then (Some idx, rr1) else RoundRobin_loop k rr1)"

definition RoundRobin_Next :: "RoundRobin \<Rightarrow> nat option \<times> RoundRobin" where
  "RoundRobin_Next rr =
     (if length (rr_targets rr) = 0 then (None, rr)
      else RoundRobin_loop (length (rr_targets rr)) rr)"

definition RoundRobin_MarkHealthy :: "nat \<Rightarrow> bool \<Rightarrow> RoundRobin \<Rightarrow> RoundRobin" where
  "RoundRobin_MarkHealthy i h rr =
     rr\<lparr>rr_targets := (rr_targets rr)[i := (rr_targets rr ! i)\<lparr>Healthy := h\<rparr>]\<rparr>"

text \<open>Consecutive \<open>Next\<close> calls with nothing else touching the balancer in between.\<close>

fun RoundRobin_run :: "nat \<Rightarrow> RoundRobin \<Rightarrow> nat option list \<times> RoundRobin" where
  "RoundRobin_run 0 rr = ([], rr)"
| "RoundRobin_run (Suc m) rr =
     (case RoundRobin_Next rr of (t, rr1) \<Rightarrow>
        (case RoundRobin_run m rr1 of (ts, rr2) \<Rightarrow> (t # ts, rr2)))"

subsection \<open>Least connections\<close>

record LeastConn =
  lc_targets :: "Target list"

definition NewLeastConn :: "Target list \<Rightarrow> LeastConn" where
  "NewLeastConn ts = \<lparr>lc_targets = map (\<lambda>t. t\<lparr>Healthy := True\<rparr>) ts\<rparr>"

text \<open>The scan of \<open>LeastConn.Next\<close>: \<open>i\<close> is the index of the head of the list left.\<close>

fun LeastConn_loop :: "Target list \<Rightarrow> nat \<Rightarrow> nat option \<Rightarrow> int \<Rightarrow> nat option" where
  "LeastConn_loop [] i best minConn = best"
| "LeastConn_loop (t # ts) i best minConn =
     (if \<not> Healthy t then LeastConn_loop ts (i + 1) best minConn
      else if minConn < 0 \<or> Connections t < minConn
        then LeastConn_loop ts (i + 1) (Some i) (Connections t)
      else LeastConn_loop ts (i + 1) best minConn)"

definition LeastConn_Next :: "LeastConn \<Rightarrow> nat option \<times> LeastConn" where
  "LeastConn_Next lc =
     (if length (lc_targets lc) = 0 then (None, lc)
      else (case LeastConn_loop (lc_targets lc) 0 None (- 1) of
              None \<Rightarrow> (Some 0, lc)
            | Some b \<Rightarrow> (Some b, lc)))"

subsection \<open>Random\<close>

record Random =
  rnd_targets :: "Target list"

definition NewRandom :: "Target list \<Rightarrow> Random" where
  "NewRandom ts = \<lparr>rnd_targets = map (\<lambda>t. t\<lparr>Healthy := True\<rparr>) ts\<rparr>"

text \<open>
  \<open>Random.Next\<close>; \<open>draw n\<close> stands for the value \<open>rand.Intn(n)\<close> returns in this call,
  reduced below \<open>n\<close> as \<open>rand.Intn\<close> guarantees.
\<close>

definition Random_Next :: "(nat \<Rightarrow> nat) \<Rightarrow> Random \<Rightarrow> nat option \<times> Random" where
  "Random_Next draw r =
     (if length (rnd_targets r) = 0 then (None, r)
      else (let healthy = filter (\<lambda>i. Healthy (rnd_targets r ! i)) [0..<length (rnd_targets r)]
            in if length healthy = 0
               then (Some (draw (length (rnd_targets r)) mod length (rnd_targets r)), r)
               else (Some (healthy ! (draw (length healthy) mod length healthy)), r)))"

subsection \<open>Weighted round robin\<close>

text \<open>Go's \<open>%\<close> on \<open>int\<close>: the remainder has the sign of the dividend.\<close>

definition go_rem :: "int \<Rightarrow> int \<Rightarrow> int" where
  "go_rem a b = sgn a * (\<bar>a\<bar> mod \<bar>b\<bar>)"

function go_gcd :: "int \<Rightarrow> int \<Rightarrow> int" where
  "go_gcd a b = (if b = 0 then a else go_gcd b (go_rem a b))"
  by pat_completeness auto
termination
proof (relation "measure (\<lambda>(a, b). nat \<bar>b\<bar>)")
  show "wf (measure (\<lambda>(a, b). nat \<bar>b\<bar>))" by simp
next
  fix a b :: int
  assume b: "b \<noteq> 0"
  have nn: "0 \<le> \<bar>a\<bar> mod \<bar>b\<bar>" using b by simp
  have "\<bar>go_rem a b\<bar> \<le> \<bar>a\<bar> mod \<bar>b\<bar>"
    using nn by (cases "a = 0") (simp_all add: go_rem_def abs_mult abs_sgn_eq)
  also have "\<dots> < \<bar>b\<bar>" using b by simp
  finally show "((b, go_rem a b), (a, b)) \<in> measure (\<lambda>(a, b). nat \<bar>b\<bar>)" by simp
qed

declare go_gcd.simps [simp del]

definition gcdSlice :: "int list \<Rightarrow> int" where
  "gcdSlice nums = (case nums of [] \<Rightarrow> 1 | x # xs \<Rightarrow> foldl go_gcd x xs)"

record WeightedRoundRobin =
  wrr_targets :: "Target list"
  weights :: "int list"
  currentWeight :: int
  maxWeight :: int
  wrr_gcd :: int
  current :: int

text \<open>
  The second loop of \<open>NewWeightedRoundRobin\<close>: a weight that is not positive is
  replaced by 1, and the maximum is kept.
\<close>

fun NewWeightedRoundRobin_loop :: "Target list \<Rightarrow> int list \<Rightarrow> int \<Rightarrow> int list \<times> int" where
  "NewWeightedRoundRobin_loop [] ws m = (ws, m)"
| "NewWeightedRoundRobin_loop (t # ts) ws m =
     (let w = (if Weight t \<le> 0 then 1 else Weight t)
      in NewWeightedRoundRobin_loop ts (ws @ [w]) (if w > m then w else m))"

definition NewWeightedRoundRobin :: "Target list \<Rightarrow> WeightedRoundRobin" where
  "NewWeightedRoundRobin ts =
     (let targets = map (\<lambda>t. t\<lparr>Healthy := True\<rparr>) ts in
      case NewWeightedRoundRobin_loop targets [] 0 of
        (ws, m) \<Rightarrow> \<lparr>wrr_targets = targets, weights = ws, currentWeight = 0, maxWeight = m,
                     wrr_gcd = gcdSlice ws, current = - 1\<rparr>)"

text \<open>
  One iteration of the loop of \<open>WeightedRoundRobin.Next\<close>, up to its tests: the index
  moves on, and when it comes back to 0 the current weight is lowered by the gcd, or
  reset to the maximum.
\<close>

definition wrr_advance :: "WeightedRoundRobin \<Rightarrow> WeightedRoundRobin" where
  "wrr_advance s =
     (let s1 = s\<lparr>current := go_rem (current s + 1) (int (length (wrr_targets s)))\<rparr> in
      if current s1 = 0 then
        (let s2 = s1\<lparr>currentWeight := currentWeight s1 - wrr_gcd s1\<rparr> in
         if currentWeight s2 \<le> 0 then s2\<lparr>currentWeight := maxWeight s2\<rparr> else s2)
      else s1)"

text \<open>
  The loop itself has no bound in the source (\<open>for { ... }\<close>), so it is a partial
  function: \<open>None\<close> means that it does not return.
\<close>

partial_function (option) WeightedRoundRobin_loop ::
  "WeightedRoundRobin \<Rightarrow> (nat \<times> WeightedRoundRobin) outcome option" where
  "WeightedRoundRobin_loop s =
     (let s1 = wrr_advance s in
      if current s1 < 0 \<or> int (length (weights s1)) \<le> current s1 then Some Panic
      else if currentWeight s1 \<le> weights s1 ! nat (current s1)
              \<and> Healthy (wrr_targets s1 ! nat (current s1))
        then Some (Return (nat (current s1), s1))
      else if current s1 = 0 \<and> currentWeight s1 = maxWeight s1 then Some (Return (0, s1))
      else WeightedRoundRobin_loop s1)"

declare WeightedRoundRobin_loop.simps [code]

definition WeightedRoundRobin_Next ::
  "WeightedRoundRobin \<Rightarrow> (nat option \<times> WeightedRoundRobin) outcome option" where
  "WeightedRoundRobin_Next s =
     (if length (wrr_targets s) = 0 then Some (Return (None, s))
      else (case WeightedRoundRobin_loop s of
              None \<Rightarrow> None
            | Some Panic \<Rightarrow> Some Panic
            | Some (Return (i, s1)) \<Rightarrow> Some (Return (Some i, s1))))"

fun WeightedRoundRobin_run ::
  "nat \<Rightarrow> WeightedRoundRobin \<Rightarrow> (nat option list \<times> WeightedRoundRobin) outcome option" where
  "WeightedRoundRobin_run 0 s = Some (Return ([], s))"
| "WeightedRoundRobin_run (Suc m) s =
     (case WeightedRoundRobin_Next s of
        None \<Rightarrow> None
      | Some Panic \<Rightarrow> Some Panic
      | Some (Return (t, s1)) \<Rightarrow>
          (case WeightedRoundRobin_run m s1 of
             None \<Rightarrow> None
           | Some Panic \<Rightarrow> Some Panic
           | Some (Return (ts, s2)) \<Rightarrow> Some (Return (t # ts, s2))))"

subsection \<open>The interface and its factory\<close>

datatype LoadBalancer =
  LB_RoundRobin RoundRobin
| LB_LeastConn LeastConn
| LB_Random Random
| LB_WeightedRoundRobin WeightedRoundRobin

definition loadbalancer_New :: "string \<Rightarrow> Target list \<Rightarrow> LoadBalancer" where
  "loadbalancer_New strategy ts =
     (if strategy = ''least_conn'' then LB_LeastConn (NewLeastConn ts)
      else if strategy = ''random'' then LB_Random (NewRandom ts)
      else if strategy = ''weighted_round_robin''
        then LB_WeightedRoundRobin (NewWeightedRoundRobin ts)
      else LB_RoundRobin (NewRoundRobin ts))"

fun LoadBalancer_Targets :: "LoadBalancer \<Rightarrow> Target list" where
  "LoadBalancer_Targets (LB_RoundRobin rr) = rr_targets rr"
| "LoadBalancer_Targets (LB_LeastConn lc) = lc_targets lc"
| "LoadBalancer_Targets (LB_Random r) = rnd_targets r"
| "LoadBalancer_Targets (LB_WeightedRoundRobin w) = wrr_targets w"

fun LoadBalancer_Next ::
  "(nat \<Rightarrow> nat) \<Rightarrow> LoadBalancer \<Rightarrow> (nat option \<times> LoadBalancer) outcome option" where
  "LoadBalancer_Next draw (LB_RoundRobin rr) =
     (case RoundRobin_Next rr of (t, rr1) \<Rightarrow> Some (Return (t, LB_RoundRobin rr1)))"
| "LoadBalancer_Next draw (LB_LeastConn lc) =
     (case LeastConn_Next lc of (t, lc1) \<Rightarrow> Some (Return (t, LB_LeastConn lc1)))"
| "LoadBalancer_Next draw (LB_Random r) =
     (case Random_Next draw r of (t, r1) \<Rightarrow> Some (Return (t, LB_Random r1)))"
| "LoadBalancer_Next draw (LB_WeightedRoundRobin w) =
     (case WeightedRoundRobin_Next w of
        None \<Rightarrow> None
      | Some Panic \<Rightarrow> Some Panic
      | Some (Return (t, w1)) \<Rightarrow> Some (Return (t, LB_WeightedRoundRobin w1)))"

text \<open>\<open>MarkHealthy\<close> is the same store to the target's flag in all four balancers.\<close>

fun LoadBalancer_MarkHealthy :: "nat \<Rightarrow> bool \<Rightarrow> LoadBalancer \<Rightarrow> LoadBalancer" where
  "LoadBalancer_MarkHealthy i h (LB_RoundRobin rr) = LB_RoundRobin (RoundRobin_MarkHealthy i h rr)"
| "LoadBalancer_MarkHealthy i h (LB_LeastConn lc) =
     LB_LeastConn (lc\<lparr>lc_targets := (lc_targets lc)[i := (lc_targets lc ! i)\<lparr>Healthy := h\<rparr>]\<rparr>)"
| "LoadBalancer_MarkHealthy i h (LB_Random r) =
     LB_Random (r\<lparr>rnd_targets := (rnd_targets r)[i := (rnd_targets r ! i)\<lparr>Healthy := h\<rparr>]\<rparr>)"
| "LoadBalancer_MarkHealthy i h (LB_WeightedRoundRobin w) =
     LB_WeightedRoundRobin
       (w\<lparr>wrr_targets := (wrr_targets w)[i := (wrr_targets w ! i)\<lparr>Healthy := h\<rparr>]\<rparr>)"

subsection \<open>Notions and inputs used to state the properties of the balancers\<close>

text \<open>The targets of the repository's balancer tests (\<open>makeTargets\<close>): weight 1 each.\<close>

definition makeTargets :: "string list \<Rightarrow> Target list" where
  "makeTargets urls = map (\<lambda>u. \<lparr>URL = u, Weight = 1, Healthy = False, Connections = 0\<rparr>) urls"

definition abcTargets :: "Target list" where
  "abcTargets = makeTargets [''http://a:8080'', ''http://b:8080'', ''http://c:8080'']"

text \<open>
  A round-robin balancer over three live targets whose counter stands three steps before
  the end of the \<open>uint64\<close> range, as it does after \<open>2^64 - 3\<close> calls.
\<close>

definition wrappingRoundRobin :: RoundRobin where
  "wrappingRoundRobin = (NewRoundRobin abcTargets)\<lparr>rr_current := 18446744073709551613\<rparr>"

definition targetsWithWeights :: "int list \<Rightarrow> Target list" where
  "targetsWithWeights ws =
     map (\<lambda>w. \<lparr>URL = [], Weight = w, Healthy = False, Connections = 0\<rparr>) ws"

text \<open>The weight the weighted balancer works with.\<close>

definition effectiveWeight :: "Target \<Rightarrow> int" where
  "effectiveWeight t = (if Weight t \<le> 0 then 1 else Weight t)"

text \<open>
  The states the weighted balancer can be in between calls, the acceptance test of its
  loop, and the target an iteration returns (if it returns).
\<close>

definition wrrInv :: "WeightedRoundRobin \<Rightarrow> bool" where
  "wrrInv s = (length (weights s) = length (wrr_targets s) \<and> 0 < length (wrr_targets s)
     \<and> - 1 \<le> current s \<and> current s < int (length (wrr_targets s)))"

definition wrrAccepts :: "WeightedRoundRobin \<Rightarrow> bool" where
  "wrrAccepts s = (currentWeight s \<le> weights s ! nat (current s)
     \<and> Healthy (wrr_targets s ! nat (current s)))"

definition wrrReturns :: "WeightedRoundRobin \<Rightarrow> nat \<Rightarrow> bool" where
  "wrrReturns s t = ((wrrAccepts s \<and> t = nat (current s))
     \<or> (\<not> wrrAccepts s \<and> current s = 0 \<and> currentWeight s = maxWeight s \<and> t = 0))"

section \<open>Package \<open>ratelimit\<close>\<close>

text \<open>
  The token level is a \<open>float64\<close>.  It is modelled as a real number, and every
  floating-point operation as the exact operation followed by a rounding \<open>rnd\<close>, which is
  a parameter; the properties below hold for every rounding that is monotone, maps 0 to 0
  and leaves its own results unchanged, as rounding to nearest does.  A \<open>time.Time\<close>
  is its monotonic clock reading in nanoseconds.
\<close>

definition roundingContract :: "(real \<Rightarrow> real) \<Rightarrow> bool" where
  "roundingContract rnd = (mono rnd \<and> rnd 0 = 0 \<and> (\<forall>x. rnd (rnd x) = rnd x))"

text \<open>Go's \<open>/\<close> on integers: the quotient is truncated towards zero.\<close>

definition go_quot :: "int \<Rightarrow> int \<Rightarrow> int" where
  "go_quot a b = sgn a * sgn b * (\<bar>a\<bar> div \<bar>b\<bar>)"

text \<open>
  \<open>Duration.Seconds\<close>: the whole seconds plus the nanoseconds left, divided by \<open>1e9\<close>.
\<close>

definition Seconds :: "(real \<Rightarrow> real) \<Rightarrow> int \<Rightarrow> real" where
  "Seconds rnd d =
     (let sec = go_quot d 1000000000; nsec = go_rem d 1000000000
      in rnd (rnd (of_int sec) + rnd (rnd (of_int nsec) / 1000000000)))"

record TokenBucket =
  tokens :: real
  maxTokens :: real
  refillRate :: real
  lastRefill :: int

text \<open>\<open>now\<close> is the reading \<open>time.Now()\<close> returns inside the function.\<close>

definition NewTokenBucket :: "(real \<Rightarrow> real) \<Rightarrow> int \<Rightarrow> int \<Rightarrow> int \<Rightarrow> TokenBucket" where
  "NewTokenBucket rnd now rps burst =
     \<lparr>tokens = rnd (of_int burst), maxTokens = rnd (of_int burst),
      refillRate = rnd (of_int rps), lastRefill = now\<rparr>"

definition refill :: "(real \<Rightarrow> real) \<Rightarrow> int \<Rightarrow> TokenBucket \<Rightarrow> TokenBucket" where
  "refill rnd now tb =
     (let elapsed = Seconds rnd (now - lastRefill tb);
          tb1 = tb\<lparr>tokens := rnd (tokens tb + rnd (elapsed * refillRate tb))\<rparr>;
          tb2 = (if tokens tb1 > maxTokens tb1 then tb1\<lparr>tokens := maxTokens tb1\<rparr> else tb1)
      in tb2\<lparr>lastRefill := now\<rparr>)"

definition TokenBucket_Allow ::
  "(real \<Rightarrow> real) \<Rightarrow> int \<Rightarrow> TokenBucket \<Rightarrow> bool \<times> TokenBucket" where
  "TokenBucket_Allow rnd now tb =
     (let tb1 = refill rnd now tb in
      if tokens tb1 \<ge> 1 then (True, tb1\<lparr>tokens := rnd (tokens tb1 - 1)\<rparr>) else (False, tb1))"

text \<open>
  A sequence of \<open>Allow\<close> calls on one bucket, each with the clock reading it takes: the
  answers, and the bucket as it stands after each call.
\<close>

fun Allow_seq ::
  "(real \<Rightarrow> real) \<Rightarrow> int list \<Rightarrow> TokenBucket \<Rightarrow> (bool \<times> TokenBucket) list" where
  "Allow_seq rnd [] tb = []"
| "Allow_seq rnd (now # nows) tb =
     (case TokenBucket_Allow rnd now tb of
        (ok, tb1) \<Rightarrow> (ok, tb1) # Allow_seq rnd nows tb1)"

subsection \<open>The clock\<close>

text \<open>
  \<open>time.Now()\<close> reads the environment: \<open>envClock\<close> lists the readings it will return,
  in the order of the calls, and \<open>envReads\<close> counts the calls made so far.
\<close>

record Env =
  envClock :: "nat \<Rightarrow> int"
  envReads :: nat

definition time_Now :: "Env \<Rightarrow> int \<times> Env" where
  "time_Now env = (envClock env (envReads env), env\<lparr>envReads := envReads env + 1\<rparr>)"

subsection \<open>The registry\<close>

text \<open>
  \<open>RateLimiter\<close>.  The map holds one bucket object per key.  \<open>queries\<close> is not a field
  of the Go struct: it lists the keys \<open>AllowWithLimits\<close> has been called with, oldest
  first, so that the order of the calls can be stated.  The eviction goroutine is not
  modelled.
\<close>

record RateLimiter =
  buckets :: "string \<rightharpoonup> TokenBucket"
  defaultRPS :: int
  defaultBurst :: int
  queries :: "string list"

definition NewRateLimiter :: "int \<Rightarrow> int \<Rightarrow> RateLimiter" where
  "NewRateLimiter rps burst =
     \<lparr>buckets = Map.empty, defaultRPS = rps, defaultBurst = burst, queries = []\<rparr>"

definition AllowWithLimits ::
  "(real \<Rightarrow> real) \<Rightarrow> string \<Rightarrow> int \<Rightarrow> int \<Rightarrow> RateLimiter \<times> Env
     \<Rightarrow> bool \<times> RateLimiter \<times> Env" where
  "AllowWithLimits rnd key rps burst st =
     (case st of (rl0, env) \<Rightarrow>
        (let rl = rl0\<lparr>queries := queries rl0 @ [key]\<rparr> in
         case buckets rl key of
           Some bucket \<Rightarrow>
             (case time_Now env of (now, env1) \<Rightarrow>
                (case TokenBucket_Allow rnd now bucket of
                   (ok, bucket1) \<Rightarrow> (ok, rl\<lparr>buckets := (buckets rl)(key \<mapsto> bucket1)\<rparr>, env1)))
         | None \<Rightarrow>
             (case time_Now env of (created, env1) \<Rightarrow>
                (case time_Now env1 of (now, env2) \<Rightarrow>
                   (case TokenBucket_Allow rnd now (NewTokenBucket rnd created rps burst) of
                      (ok, bucket1) \<Rightarrow>
                        (ok, rl\<lparr>buckets := (buckets rl)(key \<mapsto> bucket1)\<rparr>, env2))))))"

definition RateLimiter_Allow ::
  "(real \<Rightarrow> real) \<Rightarrow> string \<Rightarrow> RateLimiter \<times> Env \<Rightarrow> bool \<times> RateLimiter \<times> Env" where
  "RateLimiter_Allow rnd key st =
     AllowWithLimits rnd key (defaultRPS (fst st)) (defaultBurst (fst st)) st"

definition SetLimits ::
  "(real \<Rightarrow> real) \<Rightarrow> string \<Rightarrow> int \<Rightarrow> int \<Rightarrow> RateLimiter \<times> Env \<Rightarrow> RateLimiter \<times> Env" where
  "SetLimits rnd key rps burst st =
     (case st of (rl, env) \<Rightarrow>
        (case time_Now env of (now, env1) \<Rightarrow>
           (rl\<lparr>buckets := (buckets rl)(key \<mapsto> NewTokenBucket rnd now rps burst)\<rparr>, env1)))"

subsection \<open>Notions used to state the properties of the token bucket\<close>

text \<open>The invariant of the specification: the token level lies between 0 and the capacity.\<close>

definition withinCapacity :: "TokenBucket \<Rightarrow> bool" where
  "withinCapacity tb = (0 \<le> tokens tb \<and> tokens tb \<le> maxTokens tb)"

text \<open>What every bucket built from limits that are not negative keeps true.\<close>

definition bucketInv :: "(real \<Rightarrow> real) \<Rightarrow> TokenBucket \<Rightarrow> bool" where
  "bucketInv rnd tb = (0 \<le> tokens tb \<and> tokens tb \<le> maxTokens tb \<and> 0 \<le> refillRate tb
     \<and> rnd (maxTokens tb) = maxTokens tb)"

section \<open>Package \<open>proxy\<close>\<close>

subsection \<open>Metrics counters and the response\<close>

text \<open>
  The counter families of \<open>metrics.Metrics\<close> that the request path writes before it
  forwards; a key that has no counter yet is absent from the map.  The histograms and the
  usage tracker, written after the upstream call from wall-clock durations, are left out.
\<close>

record Metrics =
  requestsTotal :: "string \<rightharpoonup> int"
  errorsTotal :: "string \<rightharpoonup> int"
  rateLimitHits :: "string \<rightharpoonup> int"
  apiKeyRequests :: "string \<rightharpoonup> int"
  requestsInFlight :: "string \<rightharpoonup> int"

text \<open>\<open>getOrCreateCounter(counters, key).Add(d)\<close>.\<close>

definition counterAdd :: "(string \<rightharpoonup> int) \<Rightarrow> string \<Rightarrow> int \<Rightarrow> (string \<rightharpoonup> int)" where
  "counterAdd counters key d =
     counters(key \<mapsto> (case counters key of None \<Rightarrow> 0 | Some c \<Rightarrow> c) + d)"

definition RecordError :: "string \<Rightarrow> string \<Rightarrow> Metrics \<Rightarrow> Metrics" where
  "RecordError rt errorType m = m\<lparr>errorsTotal := counterAdd (errorsTotal m) (rt @ ''_'' @ errorType) 1\<rparr>"

definition RecordRateLimitHit :: "string \<Rightarrow> string \<Rightarrow> Metrics \<Rightarrow> Metrics" where
  "RecordRateLimitHit rt limitType m =
     m\<lparr>rateLimitHits := counterAdd (rateLimitHits m) (rt @ ''_'' @ limitType) 1\<rparr>"

text \<open>\<open>strconv.Itoa\<close> is a parameter \<open>itoa\<close>.\<close>

definition RecordRequest ::
  "(int \<Rightarrow> string) \<Rightarrow> string \<Rightarrow> string \<Rightarrow> int \<Rightarrow> Metrics \<Rightarrow> Metrics" where
  "RecordRequest itoa rt method status m =
     m\<lparr>requestsTotal := counterAdd (requestsTotal m) (rt @ ''_'' @ method @ ''_'' @ itoa status) 1\<rparr>"

definition RecordAPIKeyRequest :: "(int \<Rightarrow> string) \<Rightarrow> string \<Rightarrow> int \<Rightarrow> Metrics \<Rightarrow> Metrics" where
  "RecordAPIKeyRequest itoa keyName status m =
     m\<lparr>apiKeyRequests := counterAdd (apiKeyRequests m) (keyName @ ''_'' @ itoa status) 1\<rparr>"

definition InFlightAdd :: "string \<Rightarrow> int \<Rightarrow> Metrics \<Rightarrow> Metrics" where
  "InFlightAdd rt d m = m\<lparr>requestsInFlight := counterAdd (requestsInFlight m) rt d\<rparr>"

text \<open>
  The \<open>http.ResponseWriter\<close>: the header map, the status once written, the body.
  \<open>http.Error\<close> sets the plain-text content type, writes the status and the message.
\<close>

record ResponseWriter =
  rwHeader :: "string \<rightharpoonup> string"
  rwStatus :: "int option"
  rwBody :: string

definition newResponseWriter :: ResponseWriter where
  "newResponseWriter = \<lparr>rwHeader = Map.empty, rwStatus = None, rwBody = []\<rparr>"

definition Header_Set :: "string \<Rightarrow> string \<Rightarrow> ResponseWriter \<Rightarrow> ResponseWriter" where
  "Header_Set k v w = w\<lparr>rwHeader := (rwHeader w)(k \<mapsto> v)\<rparr>"

definition http_Error :: "string \<Rightarrow> int \<Rightarrow> ResponseWriter \<Rightarrow> ResponseWriter" where
  "http_Error msg code w =
     w\<lparr>rwHeader := (rwHeader w)(''Content-Type'' \<mapsto> ''text/plain; charset=utf-8'',
                                  ''X-Content-Type-Options'' \<mapsto> ''nosniff''),
       rwStatus := (case rwStatus w of None \<Rightarrow> Some code | Some c \<Rightarrow> Some c),
       rwBody := rwBody w @ msg @ [CHR 0x0A]\<rparr>"

subsection \<open>The proxy\<close>

record APIKey =
  akKey :: string
  akName :: string
  akRequestsPerSecond :: int
  akBurstSize :: int
  akEnabled :: bool

record RateLimitConfig =
  rlcEnabled :: bool
  rlcDefaultRPS :: int
  rlcDefaultBurst :: int
  rlcPerIP :: bool
  rlcPerAPIKey :: bool

record cfgTarget =
  cfgURL :: string
  cfgWeight :: int

record cfgUpstream =
  cfgUpName :: string
  cfgTargets :: "cfgTarget list"
  cfgLoadBalance :: string

record Config =
  cfgUpstreams :: "cfgUpstream list"
  cfgRoutes :: "cfgRoute list"
  cfgRateLimitConfig :: RateLimitConfig
  cfgAPIKeys :: "APIKey list"

record Proxy =
  router :: Router
  upstreams :: "string \<rightharpoonup> LoadBalancer"
  rateLimiter :: RateLimiter
  metrics :: Metrics
  apiKeys :: "string \<rightharpoonup> APIKey"
  config :: Config

text \<open>
  The request as \<open>ServeHTTP\<close> sees it.  \<open>clientIP\<close> is the address \<open>getClientIP\<close>
  derives from the forwarding headers or the remote address, and \<open>presentedKey\<close> the key
  \<open>extractAPIKey\<close> finds in the \<open>Authorization\<close> header, the \<open>X-API-Key\<close> header or
  the query (empty when there is none).
\<close>

record ProxyRequest =
  request :: Request
  clientIP :: string
  presentedKey :: string

text \<open>The end of \<open>extractAPIKey\<close>: the key is looked up among the enabled keys.\<close>

definition extractAPIKey :: "Proxy \<Rightarrow> ProxyRequest \<Rightarrow> string \<times> string" where
  "extractAPIKey p r =
     (let key = presentedKey r in
      if key \<noteq> [] then (case apiKeys p key of Some apiKey \<Rightarrow> (key, akName apiKey) | None \<Rightarrow> (key, []))
      else (key, []))"

subsection \<open>Construction\<close>

text \<open>
  The loop of \<open>proxy.New\<close> over the configured targets of one upstream; \<open>parseURL\<close> is
  \<open>url.Parse\<close> (\<open>None\<close>: an error).  A weight that is not positive becomes 1.
\<close>

fun New_targets :: "(string \<Rightarrow> string option) \<Rightarrow> cfgTarget list \<Rightarrow> Target list option" where
  "New_targets parseURL [] = Some []"
| "New_targets parseURL (t # ts) =
     (case parseURL (cfgURL t) of
        None \<Rightarrow> None
      | Some parsed \<Rightarrow>
          (let weight = (if cfgWeight t \<le> 0 then 1 else cfgWeight t) in
           case New_targets parseURL ts of
             None \<Rightarrow> None
           | Some rest \<Rightarrow>
               Some (\<lparr>URL = parsed, Weight = weight, Healthy = False, Connections = 0\<rparr> # rest)))"

fun New_upstreams ::
  "(string \<Rightarrow> string option) \<Rightarrow> cfgUpstream list \<Rightarrow> (string \<rightharpoonup> LoadBalancer)
     \<Rightarrow> (string \<rightharpoonup> LoadBalancer) option" where
  "New_upstreams parseURL [] ups = Some ups"
| "New_upstreams parseURL (u # us) ups =
     (case New_targets parseURL (cfgTargets u) of
        None \<Rightarrow> None
      | Some targets \<Rightarrow>
          New_upstreams parseURL us (ups(cfgUpName u \<mapsto> loadbalancer_New (cfgLoadBalance u) targets)))"

fun New_apiKeys ::
  "(real \<Rightarrow> real) \<Rightarrow> APIKey list \<Rightarrow> (string \<rightharpoonup> APIKey) \<times> RateLimiter \<times> Env
     \<Rightarrow> (string \<rightharpoonup> APIKey) \<times> RateLimiter \<times> Env" where
  "New_apiKeys rnd [] st = st"
| "New_apiKeys rnd (key # keys) (m, rl, env) =
     (if akEnabled key
      then (case SetLimits rnd (''apikey:'' @ akKey key) (akRequestsPerSecond key)
                   (akBurstSize key) (rl, env) of
              (rl1, env1) \<Rightarrow> New_apiKeys rnd keys (m(akKey key \<mapsto> key), rl1, env1))
      else New_apiKeys rnd keys (m, rl, env))"

definition emptyMetrics :: Metrics where
  "emptyMetrics = \<lparr>requestsTotal = Map.empty, errorsTotal = Map.empty, rateLimitHits = Map.empty,
     apiKeyRequests = Map.empty, requestsInFlight = Map.empty\<rparr>"

text \<open>\<open>proxy.New\<close>; \<open>None\<close> is its error result (an upstream URL that does not parse).\<close>

definition proxy_New ::
  "(string \<Rightarrow> string) \<Rightarrow> (string \<Rightarrow> string) \<Rightarrow> (routeEntry list \<Rightarrow> routeEntry list)
     \<Rightarrow> (string \<Rightarrow> string option) \<Rightarrow> (real \<Rightarrow> real) \<Rightarrow> Config \<Rightarrow> Env
     \<Rightarrow> (Proxy \<times> Env) option" where
  "proxy_New lw up srt parseURL rnd cfg env =
     (let r = New lw up srt (cfgRoutes cfg) in
      case New_upstreams parseURL (cfgUpstreams cfg) Map.empty of
        None \<Rightarrow> None
      | Some ups \<Rightarrow>
          (let rl = NewRateLimiter (rlcDefaultRPS (cfgRateLimitConfig cfg))
                      (rlcDefaultBurst (cfgRateLimitConfig cfg))
           in case New_apiKeys rnd (cfgAPIKeys cfg) (Map.empty, rl, env) of
                (keys, rl1, env1) \<Rightarrow>
                  Some (\<lparr>router = r, upstreams = ups, rateLimiter = rl1, metrics = emptyMetrics,
                         apiKeys = keys, config = cfg\<rparr>, env1)))"

subsection \<open>\<open>checkRateLimits\<close>\<close>

text \<open>
  The three lines every rejecting tier runs: the hit is counted under the tier's label,
  \<open>Retry-After: 1\<close> is set and 429 is written.
\<close>

definition reject429 ::
  "string \<Rightarrow> string \<Rightarrow> ResponseWriter \<times> Proxy \<times> Env \<Rightarrow> bool \<times> ResponseWriter \<times> Proxy \<times> Env" where
  "reject429 routeName limitType st =
     (case st of (w, p, env) \<Rightarrow>
        (False,
         http_Error ''Too Many Requests'' 429 (Header_Set ''Retry-After'' ''1'' w),
         p\<lparr>metrics := RecordRateLimitHit routeName limitType (metrics p)\<rparr>,
         env))"

text \<open>
  \<open>checkRateLimits\<close> is three \<open>if\<close> blocks in a row and \<open>return true\<close>.  The model
  has one function per block, each ending in the rest of the body: from the third block
  on, from the second block on, and the whole.
\<close>

definition checkRateLimits_ip ::
  "(real \<Rightarrow> real) \<Rightarrow> string \<Rightarrow> string \<Rightarrow> ResponseWriter \<times> Proxy \<times> Env
     \<Rightarrow> bool \<times> ResponseWriter \<times> Proxy \<times> Env" where
  "checkRateLimits_ip rnd ip routeName st =
     (case st of (w, p, env) \<Rightarrow>
        if rlcPerIP (cfgRateLimitConfig (config p)) \<and> ip \<noteq> [] then
          (case RateLimiter_Allow rnd (''ip:'' @ ip) (rateLimiter p, env) of
             (ok, rl, env1) \<Rightarrow>
               if \<not> ok then reject429 routeName ''ip'' (w, p\<lparr>rateLimiter := rl\<rparr>, env1)
               else (True, w, p\<lparr>rateLimiter := rl\<rparr>, env1))
        else (True, w, p, env))"

definition checkRateLimits_apikey ::
  "(real \<Rightarrow> real) \<Rightarrow> string \<Rightarrow> string \<Rightarrow> string \<Rightarrow> ResponseWriter \<times> Proxy \<times> Env
     \<Rightarrow> bool \<times> ResponseWriter \<times> Proxy \<times> Env" where
  "checkRateLimits_apikey rnd ip apiKey routeName st =
     (case st of (w, p, env) \<Rightarrow>
        if rlcPerAPIKey (cfgRateLimitConfig (config p)) \<and> apiKey \<noteq> [] then
          (case RateLimiter_Allow rnd (''apikey:'' @ apiKey) (rateLimiter p, env) of
             (ok, rl, env1) \<Rightarrow>
               if \<not> ok then reject429 routeName ''apikey'' (w, p\<lparr>rateLimiter := rl\<rparr>, env1)
               else checkRateLimits_ip rnd ip routeName (w, p\<lparr>rateLimiter := rl\<rparr>, env1))
        else checkRateLimits_ip rnd ip routeName (w, p, env))"

definition checkRateLimits ::
  "(real \<Rightarrow> real) \<Rightarrow> Route \<Rightarrow> string \<Rightarrow> string \<Rightarrow> string \<Rightarrow> ResponseWriter \<times> Proxy \<times> Env
     \<Rightarrow> bool \<times> ResponseWriter \<times> Proxy \<times> Env" where
  "checkRateLimits rnd rt ip apiKey routeName st =
     (case st of (w, p, env) \<Rightarrow>
        (case RateLimit rt of
           None \<Rightarrow> checkRateLimits_apikey rnd ip apiKey routeName (w, p, env)
         | Some limit \<Rightarrow>
             if Enabled limit then
               (case AllowWithLimits rnd (''route:'' @ routeName) (RequestsPerSecond limit)
                       (BurstSize limit) (rateLimiter p, env) of
                  (ok, rl, env1) \<Rightarrow>
                    if \<not> ok then reject429 routeName ''route'' (w, p\<lparr>rateLimiter := rl\<rparr>, env1)
                    else checkRateLimits_apikey rnd ip apiKey routeName
                           (w, p\<lparr>rateLimiter := rl\<rparr>, env1))
             else checkRateLimits_apikey rnd ip apiKey routeName (w, p, env)))"

subsection \<open>\<open>ServeHTTP\<close>\<close>

fun LoadBalancer_addConnections :: "nat \<Rightarrow> int \<Rightarrow> LoadBalancer \<Rightarrow> LoadBalancer" where
  "LoadBalancer_addConnections i d (LB_RoundRobin rr) =
     LB_RoundRobin (rr\<lparr>rr_targets := (rr_targets rr)
        [i := (rr_targets rr ! i)\<lparr>Connections := Connections (rr_targets rr ! i) + d\<rparr>]\<rparr>)"
| "LoadBalancer_addConnections i d (LB_LeastConn lc) =
     LB_LeastConn (lc\<lparr>lc_targets := (lc_targets lc)
        [i := (lc_targets lc ! i)\<lparr>Connections := Connections (lc_targets lc ! i) + d\<rparr>]\<rparr>)"
| "LoadBalancer_addConnections i d (LB_Random r) =
     LB_Random (r\<lparr>rnd_targets := (rnd_targets r)
        [i := (rnd_targets r ! i)\<lparr>Connections := Connections (rnd_targets r ! i) + d\<rparr>]\<rparr>)"
| "LoadBalancer_addConnections i d (LB_WeightedRoundRobin s) =
     LB_WeightedRoundRobin (s\<lparr>wrr_targets := (wrr_targets s)
        [i := (wrr_targets s ! i)\<lparr>Connections := Connections (wrr_targets s ! i) + d\<rparr>]\<rparr>)"

text \<open>
  The deferred \<open>done()\<close> of the in-flight gauge, run on every way out of \<open>ServeHTTP\<close>
  after the route is known.
\<close>

definition done_inflight ::
  "string \<Rightarrow> ResponseWriter \<times> Proxy \<times> Env \<Rightarrow> (ResponseWriter \<times> Proxy \<times> Env) outcome option" where
  "done_inflight routeName st =
     (case st of (w, p, env) \<Rightarrow>
        Some (Return (w, p\<lparr>metrics := InFlightAdd routeName (- 1) (metrics p)\<rparr>, env)))"

text \<open>
  \<open>ServeHTTP\<close> from the upstream lookup on.  \<open>forward\<close> is \<open>proxyRequest\<close>, the call to
  the upstream over the network: given the response writer, the request, the route and the
  chosen target it yields the status code, whether an error occurred, and the response
  written.  \<open>draw\<close> is \<open>rand.Intn\<close>, \<open>itoa\<close> is \<open>strconv.Itoa\<close>.  After the call
  \<open>time.Since(start)\<close> reads the clock; the duration it gives goes to the latency
  histograms and the usage tracker only, which are not modelled.
\<close>

definition ServeHTTP_upstream ::
  "(nat \<Rightarrow> nat) \<Rightarrow> (int \<Rightarrow> string)
     \<Rightarrow> (ResponseWriter \<Rightarrow> ProxyRequest \<Rightarrow> Route \<Rightarrow> Target \<Rightarrow> (int \<times> bool) \<times> ResponseWriter)
     \<Rightarrow> ProxyRequest \<Rightarrow> Route \<Rightarrow> string \<Rightarrow> string
     \<Rightarrow> ResponseWriter \<times> Proxy \<times> Env \<Rightarrow> (ResponseWriter \<times> Proxy \<times> Env) outcome option" where
  "ServeHTTP_upstream draw itoa forward r rt routeName apiKeyName st =
     (case st of (w, p, env) \<Rightarrow>
        (case upstreams p (Upstream rt) of
           None \<Rightarrow>
             done_inflight routeName
               (http_Error ''Bad Gateway'' 502 w,
                p\<lparr>metrics := RecordError routeName ''upstream_not_found'' (metrics p)\<rparr>, env)
         | Some lb \<Rightarrow>
             (case LoadBalancer_Next draw lb of
                None \<Rightarrow> None
              | Some Panic \<Rightarrow> Some Panic
              | Some (Return (None, lb1)) \<Rightarrow>
                  done_inflight routeName
                    (http_Error ''Service Unavailable'' 503 w,
                     p\<lparr>upstreams := (upstreams p)(Upstream rt \<mapsto> lb1),
                       metrics := RecordError routeName ''no_healthy_upstream'' (metrics p)\<rparr>, env)
              | Some (Return (Some target, lb1)) \<Rightarrow>
                  (let lb2 = LoadBalancer_addConnections target 1 lb1 in
                   case forward w r rt (LoadBalancer_Targets lb2 ! target) of
                     ((statusCode, err), w1) \<Rightarrow>
                       (let m1 = RecordRequest itoa routeName (reqMethod (request r)) statusCode
                                   (metrics p);
                            m2 = (if apiKeyName \<noteq> [] then RecordAPIKeyRequest itoa apiKeyName statusCode m1
                                  else m1);
                            m3 = (if err then RecordError routeName ''proxy_error'' m2 else m2);
                            lb3 = LoadBalancer_addConnections target (- 1) lb2
                        in done_inflight routeName
                             (w1, p\<lparr>upstreams := (upstreams p)(Upstream rt \<mapsto> lb3), metrics := m3\<rparr>,
                              snd (time_Now env)))))))"

text \<open>
  \<open>ServeHTTP\<close>.  It starts with \<open>start := time.Now()\<close>, a reading of the clock.  \<open>None\<close>
  stands for a call that does not return, \<open>Panic\<close> for one that panics.
\<close>

definition ServeHTTP ::
  "(string \<Rightarrow> string) \<Rightarrow> (real \<Rightarrow> real) \<Rightarrow> (nat \<Rightarrow> nat) \<Rightarrow> (int \<Rightarrow> string)
     \<Rightarrow> (ResponseWriter \<Rightarrow> ProxyRequest \<Rightarrow> Route \<Rightarrow> Target \<Rightarrow> (int \<times> bool) \<times> ResponseWriter)
     \<Rightarrow> ProxyRequest \<Rightarrow> ResponseWriter \<times> Proxy \<times> Env
     \<Rightarrow> (ResponseWriter \<times> Proxy \<times> Env) outcome option" where
  "ServeHTTP lw rnd draw itoa forward r st =
     (case st of (w, p0, env0) \<Rightarrow>
      case time_Now env0 of (start, env) \<Rightarrow>
        (case Match lw (request r) (router p0) of
           (None, router1) \<Rightarrow>
             Some (Return (http_Error ''Not Found'' 404 w,
                           p0\<lparr>router := router1,
                              metrics := RecordError ''unknown'' ''not_found'' (metrics p0)\<rparr>, env))
         | (Some a, router1) \<Rightarrow>
             (let rt = objs router1 a;
                  routeName = (if Name rt = [] then Pattern rt else Name rt);
                  p1 = p0\<lparr>router := router1, metrics := InFlightAdd routeName 1 (metrics p0)\<rparr>;
                  ip = clientIP r
              in case extractAPIKey p1 r of
                   (apiKey, apiKeyName) \<Rightarrow>
                     if rlcEnabled (cfgRateLimitConfig (config p1)) then
                       (case checkRateLimits rnd rt ip apiKey routeName (w, p1, env) of
                          (ok, st1) \<Rightarrow>
                            if \<not> ok then done_inflight routeName st1
                            else ServeHTTP_upstream draw itoa forward r rt routeName apiKeyName st1)
                     else ServeHTTP_upstream draw itoa forward r rt routeName apiKeyName
                            (w, p1, env))))"

subsection \<open>The health checker\<close>

text \<open>
  \<open>Checker.checkAll\<close>: every target of the balancer is probed and the outcome stored in
  its liveness flag.  \<open>probe\<close> is \<open>checkTarget\<close>, a request to the target over the
  network.  The health gauge the checker also sets is not part of the metrics modelled here.
\<close>

definition checkAll :: "(Target \<Rightarrow> bool) \<Rightarrow> LoadBalancer \<Rightarrow> LoadBalancer" where
  "checkAll probe lb =
     fold (\<lambda>i lb1. LoadBalancer_MarkHealthy i (probe (LoadBalancer_Targets lb ! i)) lb1)
          [0..<length (LoadBalancer_Targets lb)] lb"

text \<open>
  One round of the checker over a proxy whose upstreams all have a health check configured:
  \<open>checkAll\<close> on each balancer.
\<close>

definition health_pass :: "(Target \<Rightarrow> bool) \<Rightarrow> Proxy \<Rightarrow> Proxy" where
  "health_pass probe p = p\<lparr>upstreams := (\<lambda>name. map_option (checkAll probe) (upstreams p name))\<rparr>"


subsection \<open>The tiers of rate limiting in the words of the specification\<close>

text \<open>
  A tier is a key of the registry, the limits a new bucket for it gets, and the label its
  rejections are counted under.  The tiers that apply to a request, in the fixed order:
  the route's own limit when the route carries one and it is enabled; the client key when
  per-key limiting is configured and a key is present; the client address when per-IP
  limiting is configured and the address is not empty.
\<close>

record Tier =
  tierKey :: string
  tierRPS :: int
  tierBurst :: int
  tierLabel :: string

definition routeTier :: "string \<Rightarrow> RouteRateLimit \<Rightarrow> Tier" where
  "routeTier routeName l = \<lparr>tierKey = ''route:'' @ routeName, tierRPS = RequestsPerSecond l,
     tierBurst = BurstSize l, tierLabel = ''route''\<rparr>"

definition apikeyTier :: "Proxy \<Rightarrow> string \<Rightarrow> Tier" where
  "apikeyTier p apiKey = \<lparr>tierKey = ''apikey:'' @ apiKey, tierRPS = defaultRPS (rateLimiter p),
     tierBurst = defaultBurst (rateLimiter p), tierLabel = ''apikey''\<rparr>"

definition ipTier :: "Proxy \<Rightarrow> string \<Rightarrow> Tier" where
  "ipTier p ip = \<lparr>tierKey = ''ip:'' @ ip, tierRPS = defaultRPS (rateLimiter p),
     tierBurst = defaultBurst (rateLimiter p), tierLabel = ''ip''\<rparr>"

definition routeTiers :: "Route \<Rightarrow> string \<Rightarrow> Tier list" where
  "routeTiers rt routeName =
     (case RateLimit rt of
        None \<Rightarrow> []
      | Some l \<Rightarrow> if Enabled l then [routeTier routeName l] else [])"

definition apikeyTiers :: "Proxy \<Rightarrow> string \<Rightarrow> Tier list" where
  "apikeyTiers p apiKey =
     (if rlcPerAPIKey (cfgRateLimitConfig (config p)) \<and> apiKey \<noteq> [] then [apikeyTier p apiKey] else [])"

definition ipTiers :: "Proxy \<Rightarrow> string \<Rightarrow> Tier list" where
  "ipTiers p ip =
     (if rlcPerIP (cfgRateLimitConfig (config p)) \<and> ip \<noteq> [] then [ipTier p ip] else [])"

definition spec_tiers :: "Proxy \<Rightarrow> Route \<Rightarrow> string \<Rightarrow> string \<Rightarrow> string \<Rightarrow> Tier list" where
  "spec_tiers p rt ip apiKey routeName = routeTiers rt routeName @ apikeyTiers p apiKey @ ipTiers p ip"

text \<open>
  Evaluate the tiers one after the other; the first one that rejects answers 429 with
  \<open>Retry-After: 1\<close>, and the tiers after it are not evaluated.
\<close>

fun spec_evalTiers ::
  "(real \<Rightarrow> real) \<Rightarrow> string \<Rightarrow> Tier list \<Rightarrow> ResponseWriter \<times> Proxy \<times> Env
     \<Rightarrow> bool \<times> ResponseWriter \<times> Proxy \<times> Env" where
  "spec_evalTiers rnd routeName [] st = (True, st)"
| "spec_evalTiers rnd routeName (t # ts) (w, p, env) =
     (case AllowWithLimits rnd (tierKey t) (tierRPS t) (tierBurst t) (rateLimiter p, env) of
        (ok, rl, env1) \<Rightarrow>
          if ok then spec_evalTiers rnd routeName ts (w, p\<lparr>rateLimiter := rl\<rparr>, env1)
          else reject429 routeName (tierLabel t) (w, p\<lparr>rateLimiter := rl\<rparr>, env1))"

text \<open>A clock that stands still.\<close>

definition frozenClock :: Env where
  "frozenClock = \<lparr>envClock = (\<lambda>_. 0), envReads = 0\<rparr>"

text \<open>
  A proxy with all three tiers configured and a default burst of 0, whose one route has a
  limit of its own, as \<open>proxy.New\<close> builds it; and a request for that route that
  presents a key.
\<close>

definition exampleConfig :: Config where
  "exampleConfig = \<lparr>cfgUpstreams = [],
     cfgRoutes = [(mkCfg ''/api/**'' ''backend'')\<lparr>cfgName := ''r'',
        cfgRateLimit := Some \<lparr>RequestsPerSecond = 1, BurstSize = 1, Enabled = True\<rparr>\<rparr>],
     cfgRateLimitConfig = \<lparr>rlcEnabled = True, rlcDefaultRPS = 5, rlcDefaultBurst = 0,
                             rlcPerIP = True, rlcPerAPIKey = True\<rparr>,
     cfgAPIKeys = []\<rparr>"

definition exampleProxy :: Proxy where
  "exampleProxy = \<lparr>router = New asciiLower asciiUpper sortByPriority (cfgRoutes exampleConfig),
     upstreams = Map.empty, rateLimiter = NewRateLimiter 5 0,
     metrics = emptyMetrics, apiKeys = Map.empty, config = exampleConfig\<rparr>"

definition keyedRequest :: ProxyRequest where
  "keyedRequest = \<lparr>request = \<lparr>reqHost = ''example.com'', reqMethod = ''GET'', reqPath = ''/api/users''\<rparr>,
     clientIP = ''10.0.0.1'', presentedKey = ''k''\<rparr>"


subsection \<open>A proxy whose targets are all down\<close>

text \<open>
  One upstream with two targets under round robin, one route to it, rate limiting enabled
  with generous defaults.  The proxy is built by \<open>proxy.New\<close>, and then a round of health
  checks finds no target answering.
\<close>

definition downConfig :: Config where
  "downConfig = \<lparr>cfgUpstreams = [\<lparr>cfgUpName = ''backend'',
        cfgTargets = [\<lparr>cfgURL = ''http://10.0.0.2:8080'', cfgWeight = 1\<rparr>,
                      \<lparr>cfgURL = ''http://10.0.0.3:8080'', cfgWeight = 1\<rparr>],
        cfgLoadBalance = ''round_robin''\<rparr>],
     cfgRoutes = [(mkCfg ''/api/**'' ''backend'')\<lparr>cfgName := ''api''\<rparr>],
     cfgRateLimitConfig = \<lparr>rlcEnabled = True, rlcDefaultRPS = 100, rlcDefaultBurst = 200,
                             rlcPerIP = True, rlcPerAPIKey = False\<rparr>,
     cfgAPIKeys = []\<rparr>"

definition downProxy :: "Proxy option" where
  "downProxy = map_option (\<lambda>st. health_pass (\<lambda>_. False) (fst st))
     (proxy_New asciiLower asciiUpper sortByPriority Some (\<lambda>x. x) downConfig frozenClock)"

definition apiRequest :: ProxyRequest where
  "apiRequest = \<lparr>request = \<lparr>reqHost = ''example.com'', reqMethod = ''GET'', reqPath = ''/api/users''\<rparr>,
     clientIP = ''10.0.0.1'', presentedKey = []\<rparr>"

text \<open>
  \<open>proxyRequest\<close> when the connection to the target is refused: \<open>httpClient.Do\<close> fails,
  \<open>Bad Gateway\<close> is written and \<open>(502, err)\<close> returned.
\<close>

definition refusedForward ::
  "ResponseWriter \<Rightarrow> ProxyRequest \<Rightarrow> Route \<Rightarrow> Target \<Rightarrow> (int \<times> bool) \<times> ResponseWriter" where
  "refusedForward w r rt t = ((502, True), http_Error ''Bad Gateway'' 502 w)"

definition downRouter :: Router where
  "downRouter = New asciiLower asciiUpper sortByPriority (cfgRoutes downConfig)"


section \<open>Properties of the route matcher\<close>

subsection \<open>The rest wildcard\<close>

lemma matchPath_loop_ignores_after_rest:
  "isWild w \<Longrightarrow> seg_value w = ''**'' \<Longrightarrow>
   matchPath_loop lw (pre @ w # post) parts params = matchPath_loop lw (pre @ [w]) parts params"
  by (induction pre arbitrary: parts params) (auto split: list.splits)

lemma matchPath_loop_reaches_rest:
  "isWild w \<Longrightarrow> seg_value w = ''**'' \<Longrightarrow>
   \<forall>s\<in>set pre. \<not> (isWild s \<and> seg_value s = ''**'') \<Longrightarrow>
   length ps1 = length pre \<Longrightarrow>
   matchPath_loop lw pre ps1 params = (m, True) \<Longrightarrow>
   matchPath_loop lw (pre @ w # post) (ps1 @ ps2) params =
     ((if ps2 \<noteq> [] then m(''**'' \<mapsto> Join ps2 (CHR ''/'')) else m), True)"
proof (induction pre arbitrary: ps1 params)
  case Nil
  then show ?case by simp
next
  case (Cons s pre)
  then obtain p ps where ps1: "ps1 = p # ps" by (cases ps1) auto
  with Cons show ?case by (auto split: if_splits)
qed

lemma parsePart_rest_iff:
  "(isWild (parsePart lw p) \<and> seg_value (parsePart lw p) = ''**'') = (p = ''**'')"
  by (auto simp: parsePart_def)

lemma parseSegments_pathParts:
  "parseSegments lw pattern = map (parsePart lw) (pathParts pattern)"
  by (simp add: parseSegments_def pathParts_def Let_def)

text \<open>
  Claim C10.  \<open>parseSegments\<close> has no error result, and a part \<open>**\<close> is compiled to the
  rest wildcard wherever it stands: if part \<open>i\<close> of the pattern is \<open>**\<close> (whether or not
  parts follow it), the pattern has as many segments as parts and segment \<open>i\<close> is the
  rest wildcard.  If moreover it is the first \<open>**\<close> of the pattern and the \<open>i\<close> segments
  before it match the first \<open>i\<close> parts of the request path with captures \<open>m\<close>, then
  \<open>matchPath\<close> succeeds at once: the parts of the path that remain are bound, joined by
  slashes, under the key \<open>**\<close> (when no part remains the map is returned as it is), and
  the segments after the \<open>**\<close> play no role: cutting them off gives the same result.
\<close>

theorem C10_rest_wildcard_before_final:
  assumes i: "i < length (pathParts pattern)" and r: "pathParts pattern ! i = ''**''"
    and first: "\<forall>j<i. pathParts pattern ! j \<noteq> ''**''"
    and len: "i \<le> length (pathParts path)"
    and pre: "matchPath_loop lw (map (parsePart lw) (take i (pathParts pattern)))
                 (take i (pathParts path)) Map.empty = (m, True)"
  shows "length (parseSegments lw pattern) = length (pathParts pattern)
       \<and> parseSegments lw pattern ! i = \<lparr>seg_value = ''**'', isParam = False, isWild = True\<rparr>
       \<and> matchPath lw (parseSegments lw pattern) path =
           ((if drop i (pathParts path) \<noteq> []
             then m(''**'' \<mapsto> Join (drop i (pathParts path)) (CHR ''/'')) else m), True)
       \<and> matchPath lw (parseSegments lw pattern) path =
           matchPath lw (take (Suc i) (parseSegments lw pattern)) path"
proof -
  let ?pp = "pathParts pattern"
  let ?segs = "parseSegments lw pattern"
  let ?w = "parsePart lw ''**''"
  let ?pre = "map (parsePart lw) (take i ?pp)"
  let ?post = "map (parsePart lw) (drop (Suc i) ?pp)"
  let ?rest = "drop i (pathParts path)"
  have segs: "?segs = map (parsePart lw) ?pp" by (rule parseSegments_pathParts)
  have w: "isWild ?w" "seg_value ?w = ''**''" by (simp_all add: parsePart_def)
  have split: "?pp = take i ?pp @ ''**'' # drop (Suc i) ?pp"
    using i r by (metis id_take_nth_drop)
  have segs_split: "?segs = ?pre @ ?w # ?post"
    by (subst segs, subst split) simp
  have ne: "?segs \<noteq> []" using i segs by auto
  have nopre: "\<forall>s\<in>set ?pre. \<not> (isWild s \<and> seg_value s = ''**'')"
  proof
    fix s assume "s \<in> set ?pre"
    then obtain p where p: "p \<in> set (take i ?pp)" and s: "s = parsePart lw p" by auto
    from p obtain j where "j < i" "j < length ?pp" "p = ?pp ! j"
      by (auto simp: in_set_conv_nth)
    with first have "p \<noteq> ''**''" by auto
    with s show "\<not> (isWild s \<and> seg_value s = ''**'')" by (simp add: parsePart_rest_iff)
  qed
  have lens: "length (take i (pathParts path)) = length ?pre" using i len by simp
  have reach: "matchPath_loop lw (?pre @ ?w # ?post) (take i (pathParts path) @ ?rest) Map.empty
      = ((if ?rest \<noteq> [] then m(''**'' \<mapsto> Join ?rest (CHR ''/'')) else m), True)"
    by (rule matchPath_loop_reaches_rest [OF w nopre lens pre])
  have c1: "length ?segs = length ?pp" by (simp add: segs)
  have c2: "?segs ! i = \<lparr>seg_value = ''**'', isParam = False, isWild = True\<rparr>"
    using i r by (simp add: segs parsePart_def)
  have c3: "matchPath lw ?segs path =
           ((if ?rest \<noteq> [] then m(''**'' \<mapsto> Join ?rest (CHR ''/'')) else m), True)"
    using ne reach by (simp add: matchPath_def segs_split [symmetric])
  have tk: "take (Suc i) ?segs = ?pre @ [?w]"
    by (subst segs_split) (simp add: i less_imp_le_nat min_def)
  have "matchPath_loop lw (?pre @ ?w # ?post) (pathParts path) Map.empty
      = matchPath_loop lw (?pre @ [?w]) (pathParts path) Map.empty"
    by (rule matchPath_loop_ignores_after_rest [OF w])
  then have c4: "matchPath lw ?segs path = matchPath lw (take (Suc i) ?segs) path"
    unfolding tk using ne by (simp add: matchPath_def segs_split [symmetric])
  from c1 c2 c3 c4 show ?thesis by blast
qed

lemma pathParts_api_rest_x: "pathParts ''/api/**/x'' = [''api'', ''**'', ''x'']"
  by (simp add: pathParts_def Trim_def)

lemma pathParts_API_a_b: "pathParts ''/API/a/b'' = [''API'', ''a'', ''b'']"
  by (simp add: pathParts_def Trim_def)

text \<open>
  The pattern \<open>/api/**/x\<close> is compiled, and it matches \<open>/API/a/b\<close> with \<open>a/b\<close> bound
  under \<open>**\<close>; the segment \<open>x\<close> is never looked at.
\<close>

theorem C10_rest_wildcard_before_final_witness:
  "matchPath asciiLower (parseSegments asciiLower ''/api/**/x'') ''/API/a/b''
     = (Map.empty(''**'' \<mapsto> ''a/b''), True)
   \<and> parseSegments asciiLower ''/api/**/x'' ! 1
     = \<lparr>seg_value = ''**'', isParam = False, isWild = True\<rparr>"
  using C10_rest_wildcard_before_final
          [of 1 "''/api/**/x''" "''/API/a/b''" asciiLower Map.empty]
  by (simp add: pathParts_api_rest_x pathParts_API_a_b parsePart_def HasPrefix_def
        HasSuffix_def asciiLower_def lowerChar_def)

subsection \<open>Stripping the matched prefix\<close>

lemma StripPrefix_loop_eq:
  "StripPrefix_loop segs acc = acc @ concat (map (\<lambda>s. seg_value s @ ''/'') (literalRun segs))"
  by (induction segs arbitrary: acc) (auto simp: literalRun_def)

lemma slash_shift:
  "CHR ''/'' # concat (map (\<lambda>s. seg_value s @ ''/'') L)
     = concat (map (\<lambda>s. CHR ''/'' # seg_value s) L) @ ''/''"
  by (induction L) auto

lemma TrimSuffix_app: "TrimSuffix (xs @ p) p = xs"
  by (simp add: TrimSuffix_def HasSuffix_def)

lemma TrimPrefix_app: "TrimPrefix (p @ xs) p = xs"
  by (simp add: TrimPrefix_def HasPrefix_def)

lemma StripPrefix_prefix:
  "TrimSuffix (StripPrefix_loop (parseSegments lw pattern) ''/'') ''/'' = literalPrefix lw pattern"
proof -
  have "StripPrefix_loop (parseSegments lw pattern) ''/'' = literalPrefix lw pattern @ ''/''"
    using slash_shift [of "literalRun (parseSegments lw pattern)"]
    by (simp add: StripPrefix_loop_eq literalPrefix_def)
  then show ?thesis by (simp add: TrimSuffix_app)
qed

lemma hd_Split: "p \<noteq> [] \<Longrightarrow> hd p \<noteq> c \<Longrightarrow> hd (Split p c) \<noteq> []"
  by (cases p) (auto split: list.splits)

lemma Split_ne: "Split p c \<noteq> []"
  by (induction p) (auto split: list.splits)

lemma hd_Trim: "Trim p c \<noteq> [] \<Longrightarrow> hd (Trim p c) \<noteq> c"
proof -
  assume ne: "Trim p c \<noteq> []"
  define q where "q = dropWhile (\<lambda>x. x = c) p"
  define t where "t = rev (dropWhile (\<lambda>x. x = c) (rev q))"
  have T: "Trim p c = t" by (simp add: Trim_def q_def t_def)
  have "t @ rev (takeWhile (\<lambda>x. x = c) (rev q)) =
          rev (takeWhile (\<lambda>x. x = c) (rev q) @ dropWhile (\<lambda>x. x = c) (rev q))"
    unfolding t_def rev_append ..
  also have "\<dots> = q" by simp
  finally have qt: "q = t @ rev (takeWhile (\<lambda>x. x = c) (rev q))" by simp
  have tne: "t \<noteq> []" using ne T by simp
  then have qne: "q \<noteq> []" using qt by auto
  have "hd q \<noteq> c" using qne hd_dropWhile [of "\<lambda>x. x = c" p] by (simp add: q_def)
  moreover have "hd q = hd t" using tne qt by (metis hd_append2)
  ultimately show ?thesis using T by simp
qed

text \<open>
  The test \<open>prefix == "/"\<close> of \<open>StripPrefix\<close> never fires: the first part of a trimmed
  pattern is not empty, and lowering keeps it so.
\<close>

lemma literalPrefix_not_slash:
  assumes lw: "\<forall>s. lw s = [] \<longrightarrow> s = []"
  shows "literalPrefix lw pattern \<noteq> ''/''"
proof
  assume eq: "literalPrefix lw pattern = ''/''"
  let ?segs = "parseSegments lw pattern"
  let ?p = "Trim pattern (CHR ''/'')"
  have "literalRun ?segs \<noteq> []" using eq by (auto simp: literalPrefix_def)
  then obtain s rest where L: "literalRun ?segs = s # rest" by (cases "literalRun ?segs") auto
  with eq have sv: "seg_value s = []" by (simp add: literalPrefix_def)
  from L have segne: "?segs \<noteq> []" by (auto simp: literalRun_def)
  then have pne: "?p \<noteq> []" by (auto simp: parseSegments_def Let_def)
  from L have s: "s = hd ?segs" and lit: "\<not> isWild s" "\<not> isParam s"
    using segne by (cases ?segs; auto simp: literalRun_def split: if_splits)+
  have "hd ?segs = parsePart lw (hd (Split ?p (CHR ''/'')))"
    using pne Split_ne [of ?p "CHR ''/''"] by (simp add: parseSegments_def Let_def hd_map)
  with s have sp: "s = parsePart lw (hd (Split ?p (CHR ''/'')))" by simp
  have hne: "hd (Split ?p (CHR ''/'')) \<noteq> []" using pne hd_Trim hd_Split by metis
  from sp lit have "seg_value s = lw (hd (Split ?p (CHR ''/'')))"
    by (auto simp: parsePart_def split: if_splits)
  with sv lw hne show False by auto
qed

text \<open>
  Claim C6, as amended.  For a route with \<open>strip_path\<close> true, let \<open>P\<close> be the longest
  leading run of literal segments of its pattern (as compiled, so lowered), each preceded by
  a slash; the first non-literal segment ends the run.  A request path that starts with \<open>P\<close>
  loses it, and \<open>StripPrefix\<close> returns what follows; when the path is \<open>P\<close> itself that
  is the empty string, not \<open>/\<close> (the slash is supplied later, when the path is joined to
  the target's base path).  The only assumption on \<open>strings.ToLower\<close> is that it lowers no
  non-empty string to the empty one.
\<close>

theorem C6_StripPrefix_literal_run:
  assumes sp: "StripPath rt" and lw: "\<forall>s. lw s = [] \<longrightarrow> s = []"
  shows "StripPrefix lw rt (literalPrefix lw (Pattern rt) @ rest) = rest
       \<and> StripPrefix lw rt (literalPrefix lw (Pattern rt)) = []"
  using sp literalPrefix_not_slash [OF lw, of "Pattern rt"]
    TrimPrefix_app [of "literalPrefix lw (Pattern rt)" "[]"]
  by (simp add: StripPrefix_def StripPrefix_prefix TrimPrefix_app)

lemma asciiLower_empty: "\<forall>s. asciiLower s = [] \<longrightarrow> s = []"
  by (simp add: asciiLower_def)

lemma literalPrefix_api_v1: "literalPrefix asciiLower ''/api/v1/*'' = ''/api/v1''"
  by (simp add: literalPrefix_def literalRun_def parseSegments_def Trim_def parsePart_def
        HasPrefix_def HasSuffix_def asciiLower_def lowerChar_def)

text \<open>
  The route of the repository's test \<open>TestRouter_StripPath\<close>: \<open>/api/v1/users/123\<close>
  becomes \<open>/users/123\<close>.
\<close>

theorem C6_StripPrefix_literal_run_witness:
  "StripPrefix asciiLower (zeroRoute\<lparr>Pattern := ''/api/v1/*'', StripPath := True\<rparr>)
       ''/api/v1/users/123'' = ''/users/123''
   \<and> StripPrefix asciiLower (zeroRoute\<lparr>Pattern := ''/api/v1/*'', StripPath := True\<rparr>)
       ''/api/v1'' = []"
  using C6_StripPrefix_literal_run
          [of "zeroRoute\<lparr>Pattern := ''/api/v1/*'', StripPath := True\<rparr>" asciiLower
             "''/users/123''"]
  by (simp add: asciiLower_empty literalPrefix_api_v1 zeroRoute_def)

text \<open>
  The claim as stated fails: the route \<open>/api\<close> matches the path \<open>/api\<close>, the remainder
  is empty, and \<open>StripPrefix\<close> returns the empty string, not \<open>/\<close>.
\<close>

theorem C6_StripPrefix_empty_remainder_counterexample:
  "snd (matchPath asciiLower (parseSegments asciiLower ''/api'') ''/api'')
   \<and> StripPrefix asciiLower (zeroRoute\<lparr>Pattern := ''/api'', StripPath := True\<rparr>) ''/api'' = []
   \<and> StripPrefix asciiLower (zeroRoute\<lparr>Pattern := ''/api'', StripPath := True\<rparr>) ''/api''
        \<noteq> ''/''"
  by (simp add: StripPrefix_def matchPath_def pathParts_def zeroRoute_def parseSegments_def
        Trim_def parsePart_def HasPrefix_def HasSuffix_def TrimSuffix_def TrimPrefix_def
        asciiLower_def lowerChar_def)

subsection \<open>Priority order\<close>

lemma foldl_priority:
  "\<forall>s\<in>set segs. \<not> (isWild s \<and> isParam s) \<Longrightarrow>
   foldl (\<lambda>p seg. if isWild seg then p - 5 else if isParam seg then p - 2 else p + 3) acc segs
     = acc + 3 * int (length (filter (\<lambda>s. \<not> isWild s \<and> \<not> isParam s) segs))
           - 2 * int (length (filter isParam segs))
           - 5 * int (length (filter isWild segs))"
  by (induction segs arbitrary: acc) auto

lemma parsePart_exclusive: "isWild (parsePart lw p) \<Longrightarrow> isParam (parsePart lw p) \<Longrightarrow> False"
  by (simp add: parsePart_def split: if_splits)

lemma parseSegments_exclusive: "\<forall>s\<in>set (parseSegments lw p). \<not> (isWild s \<and> isParam s)"
  by (auto simp: parseSegments_def Let_def dest: parsePart_exclusive)

lemma calculatePriority_spec:
  "calculatePriority (parseSegments lw p) = specPriority (parseSegments lw p)"
  using foldl_priority [OF parseSegments_exclusive, of "int (length (parseSegments lw p)) * 10" lw p]
  by (simp add: calculatePriority_def specPriority_def)

lemma New_loop_compiled:
  "entriesCompiled lw r \<Longrightarrow> entriesCompiled lw (New_loop lw up cfgs r)"
proof (induction cfgs arbitrary: r)
  case Nil
  then show ?case by simp
next
  case (Cons cfg cfgs)
  show ?case
    apply (simp add: Let_def)
    apply (rule Cons.IH)
    using Cons.prems
    apply (auto simp: entriesCompiled_def)
    done
qed

lemma New_loop_set:
  "mset (routes (New lw up srt cfgs)) = mset (srt (routes (New_loop lw up cfgs emptyRouter)))"
  by (simp add: New_def Let_def)

lemma New_compiled:
  assumes "sortContract srt"
  shows "entriesCompiled lw (New lw up srt cfgs)"
proof -
  have c: "entriesCompiled lw (New_loop lw up cfgs emptyRouter)"
    by (rule New_loop_compiled) (simp add: entriesCompiled_def emptyRouter_def)
  have "set (srt (routes (New_loop lw up cfgs emptyRouter))) = set (routes (New_loop lw up cfgs emptyRouter))"
    using assms by (metis sortContract_def mset_eq_setD)
  with c show ?thesis by (simp add: New_def Let_def entriesCompiled_def)
qed

lemma New_sorted:
  assumes "sortContract srt"
  shows "sorted_wrt (\<lambda>a b. priority b \<le> priority a) (routes (New lw up srt cfgs))"
  using assms by (simp add: New_def Let_def sortContract_def)

lemma Match_loop_first:
  "sorted_wrt (\<lambda>a b. priority b \<le> priority a) es \<Longrightarrow> e1 \<in> set es \<Longrightarrow>
   hostMatches (h (route e1)) host \<Longrightarrow> methodMatches (h (route e1)) method \<Longrightarrow>
   snd (matchPath lw (segments e1) path) \<Longrightarrow>
   \<exists>e. Match_loop lw h es host method path = Some (e, fst (matchPath lw (segments e) path))
       \<and> e \<in> set es \<and> priority e1 \<le> priority e
       \<and> hostMatches (h (route e)) host \<and> methodMatches (h (route e)) method
       \<and> snd (matchPath lw (segments e) path)"
proof (induction es)
  case Nil
  then show ?case by simp
next
  case (Cons x es)
  show ?case
  proof (cases "hostMatches (h (route x)) host \<and> methodMatches (h (route x)) method
                 \<and> snd (matchPath lw (segments x) path)")
    case True
    have "priority e1 \<le> priority x" using Cons.prems(1,2) by auto
    with True show ?thesis by (auto split: prod.splits)
  next
    case False
    with Cons.prems have e1: "e1 \<in> set es" by auto
    from Cons.prems(1) have "sorted_wrt (\<lambda>a b. priority b \<le> priority a) es" by simp
    from Cons.IH [OF this e1 Cons.prems(3,4,5)] obtain e where
      e: "Match_loop lw h es host method path = Some (e, fst (matchPath lw (segments e) path))"
         "e \<in> set es" "priority e1 \<le> priority e" "hostMatches (h (route e)) host"
         "methodMatches (h (route e)) method" "snd (matchPath lw (segments e) path)" by blast
    have "Match_loop lw h (x # es) host method path = Match_loop lw h es host method path"
      using False by (auto split: prod.splits)
    with e show ?thesis by auto
  qed
qed


text \<open>
  Claim C2, as amended.  Let the router be built by \<open>router.New\<close> from any route list
  (\<open>sort.Slice\<close> sorting by descending priority).  The priority of every entry is ten
  times the number of segments of its pattern, plus three per literal, minus two per named
  parameter, minus five per wildcard.  If two entries both match a request and the first
  has strictly greater priority, then \<open>Match\<close> returns a copy of a matching entry's route
  whose priority is at least that of the first, so never the lower-priority route; with
  the captured parameters attached to the copy.  (It is the first itself only when no
  other matching entry stands before it in the sorted order.)
\<close>

theorem C2_Match_respects_priority:
  assumes srt: "sortContract srt" and r: "r = New lw up srt cfgs"
    and e1: "e1 \<in> set (routes r)" and e2: "e2 \<in> set (routes r)"
    and m1: "routeMatches lw r e1 req" and m2: "routeMatches lw r e2 req"
    and pr: "priority e2 < priority e1"
  shows "(\<exists>e. e \<in> set (routes r) \<and> routeMatches lw r e req
            \<and> priority e1 \<le> priority e \<and> priority e2 < priority e
            \<and> fst (Match lw req r) = Some (nextAddr r)
            \<and> objs (snd (Match lw req r)) (nextAddr r)
                 = (objs r (route e))\<lparr>PathParams := fst (matchPath lw (segments e) (reqPath req))\<rparr>)
       \<and> (\<forall>e\<in>set (routes r). priority e = specPriority (parseSegments lw (Pattern (objs r (route e)))))"
proof -
  have sorted: "sorted_wrt (\<lambda>a b. priority b \<le> priority a) (routes r)"
    unfolding r by (rule New_sorted [OF srt])
  from Match_loop_first [OF sorted e1, of "objs r" "requestHost lw req" "reqMethod req" lw "reqPath req"] m1
  obtain e where e: "Match_loop lw (objs r) (routes r) (requestHost lw req) (reqMethod req) (reqPath req)
        = Some (e, fst (matchPath lw (segments e) (reqPath req)))"
     "e \<in> set (routes r)" "priority e1 \<le> priority e" "routeMatches lw r e req"
    by (auto simp: routeMatches_def)
  have A: "\<exists>e. e \<in> set (routes r) \<and> routeMatches lw r e req
            \<and> priority e1 \<le> priority e \<and> priority e2 < priority e
            \<and> fst (Match lw req r) = Some (nextAddr r)
            \<and> objs (snd (Match lw req r)) (nextAddr r)
                 = (objs r (route e))\<lparr>PathParams := fst (matchPath lw (segments e) (reqPath req))\<rparr>"
    apply (rule exI [of _ e])
    using e pr by (simp add: Match_def Let_def)
  have "entriesCompiled lw r" unfolding r by (rule New_compiled [OF srt])
  then have B: "\<forall>e\<in>set (routes r). priority e = specPriority (parseSegments lw (Pattern (objs r (route e))))"
    by (auto simp: entriesCompiled_def calculatePriority_spec)
  from A B show ?thesis by blast
qed

lemma sortByPriority_contract: "sortContract sortByPriority"
proof -
  have "sorted_wrt (\<lambda>a b. priority b \<le> priority a) (sort_key (\<lambda>e. - priority e) es)" for es :: "routeEntry list"
  proof -
    have "sorted (map (\<lambda>e. - priority e) (sort_key (\<lambda>e. - priority e) es))" by (rule sorted_sort_key)
    then show ?thesis by (simp add: sorted_map)
  qed
  then show ?thesis by (simp add: sortContract_def sortByPriority_def)
qed

lemma seg_simps:
  "parseSegments asciiLower ''/**'' = [\<lparr>seg_value = ''**'', isParam = False, isWild = True\<rparr>]"
  "parseSegments asciiLower ''/api/**'' = [\<lparr>seg_value = ''api'', isParam = False, isWild = False\<rparr>, \<lparr>seg_value = ''**'', isParam = False, isWild = True\<rparr>]"
  "parseSegments asciiLower ''/api/v1/users'' = [\<lparr>seg_value = ''api'', isParam = False, isWild = False\<rparr>, \<lparr>seg_value = ''v1'', isParam = False, isWild = False\<rparr>, \<lparr>seg_value = ''users'', isParam = False, isWild = False\<rparr>]"
  "parseSegments asciiLower ''/api/v1/*'' = [\<lparr>seg_value = ''api'', isParam = False, isWild = False\<rparr>, \<lparr>seg_value = ''v1'', isParam = False, isWild = False\<rparr>, \<lparr>seg_value = ''*'', isParam = False, isWild = True\<rparr>]"
  by (simp_all add: parseSegments_def Trim_def parsePart_def HasPrefix_def HasSuffix_def asciiLower_def lowerChar_def)

lemma priorityRouter_routes:
  "routes priorityRouter =
     [\<lparr>route = 2, segments = parseSegments asciiLower ''/api/v1/users'', isWildcard = False, priority = 39\<rparr>,
      \<lparr>route = 3, segments = parseSegments asciiLower ''/api/v1/*'', isWildcard = True, priority = 31\<rparr>,
      \<lparr>route = 1, segments = parseSegments asciiLower ''/api/**'', isWildcard = True, priority = 18\<rparr>,
      \<lparr>route = 0, segments = parseSegments asciiLower ''/**'', isWildcard = True, priority = 5\<rparr>]"
  by (simp add: priorityRouter_def New_def priorityTestRoutes_def mkCfg_def emptyRouter_def Let_def
       sortByPriority_def seg_simps calculatePriority_def hasWildcard_def)

lemma priorityRouter_objs:
  "Upstream (objs priorityRouter 0) = ''catchall''"
  "Upstream (objs priorityRouter 1) = ''api''"
  "Upstream (objs priorityRouter 2) = ''users-exact''"
  "Upstream (objs priorityRouter 3) = ''v1''"
  "Host (objs priorityRouter k) = []"
  "k < 4 \<Longrightarrow> Methods (objs priorityRouter k) = {''*''}"
  "nextAddr priorityRouter = 4"
  by (auto simp add: priorityRouter_def New_def priorityTestRoutes_def mkCfg_def emptyRouter_def Let_def
       zeroRoute_def mkMethods_def asciiLower_def)


lemma usersRequest_matches:
  "routeMatches asciiLower priorityRouter (routes priorityRouter ! 0) usersRequest"
  "routeMatches asciiLower priorityRouter (routes priorityRouter ! 1) usersRequest"
  "routeMatches asciiLower priorityRouter (routes priorityRouter ! 2) usersRequest"
  by (simp_all add: routeMatches_def priorityRouter_routes priorityRouter_objs hostMatches_def
        methodMatches_def usersRequest_def seg_simps matchPath_def pathParts_def Trim_def
        asciiLower_def lowerChar_def)

lemma Match_usersRequest:
  "fst (Match asciiLower usersRequest priorityRouter) = Some 4"
  "Upstream (objs (snd (Match asciiLower usersRequest priorityRouter)) 4) = ''users-exact''"
  by (simp_all add: Match_def priorityRouter_routes priorityRouter_objs hostMatches_def
        methodMatches_def usersRequest_def seg_simps matchPath_def pathParts_def Trim_def
        asciiLower_def lowerChar_def requestHost_def Index_def)

text \<open>
  The claim as stated fails when a third route outranks both: for \<open>/api/v1/users\<close> the
  routes \<open>/api/v1/*\<close> (priority 31) and \<open>/api/**\<close> (priority 18) both match, the first
  has the greater priority, and \<open>Match\<close> returns neither but \<open>/api/v1/users\<close> (39).
\<close>

theorem C2_Match_third_route_counterexample:
  "routeMatches asciiLower priorityRouter (routes priorityRouter ! 1) usersRequest
   \<and> routeMatches asciiLower priorityRouter (routes priorityRouter ! 2) usersRequest
   \<and> priority (routes priorityRouter ! 2) < priority (routes priorityRouter ! 1)
   \<and> Upstream (objs priorityRouter (route (routes priorityRouter ! 1))) = ''v1''
   \<and> fst (Match asciiLower usersRequest priorityRouter) = Some 4
   \<and> Upstream (objs (snd (Match asciiLower usersRequest priorityRouter)) 4) = ''users-exact''
   \<and> Upstream (objs (snd (Match asciiLower usersRequest priorityRouter)) 4) \<noteq> ''v1''"
proof -
  have "priority (routes priorityRouter ! 2) < priority (routes priorityRouter ! 1)"
    and "Upstream (objs priorityRouter (route (routes priorityRouter ! 1))) = ''v1''"
    by (simp_all add: priorityRouter_routes priorityRouter_objs)
  with usersRequest_matches(2) usersRequest_matches(3) Match_usersRequest
  show ?thesis by simp
qed

theorem C2_Match_respects_priority_witness:
  "sortContract sortByPriority
   \<and> routeMatches asciiLower priorityRouter (routes priorityRouter ! 0) usersRequest
   \<and> routeMatches asciiLower priorityRouter (routes priorityRouter ! 1) usersRequest
   \<and> priority (routes priorityRouter ! 1) < priority (routes priorityRouter ! 0)
   \<and> (\<exists>e. e \<in> set (routes priorityRouter) \<and> routeMatches asciiLower priorityRouter e usersRequest
         \<and> 39 \<le> priority e \<and> fst (Match asciiLower usersRequest priorityRouter) = Some 4
         \<and> objs (snd (Match asciiLower usersRequest priorityRouter)) 4
              = (objs priorityRouter (route e))
                  \<lparr>PathParams := fst (matchPath asciiLower (segments e) ''/api/v1/users'')\<rparr>)
   \<and> priority (routes priorityRouter ! 1)
       = specPriority (parseSegments asciiLower (Pattern (objs priorityRouter 3)))"
proof -
  have in0: "routes priorityRouter ! 0 \<in> set (routes priorityRouter)"
   and in1: "routes priorityRouter ! 1 \<in> set (routes priorityRouter)"
    by (simp_all add: priorityRouter_routes)
  have lt: "priority (routes priorityRouter ! 1) < priority (routes priorityRouter ! 0)"
    by (simp add: priorityRouter_routes)
  have p0: "priority (routes priorityRouter ! 0) = 39" and r1: "route (routes priorityRouter ! 1) = 3"
    by (simp_all add: priorityRouter_routes)
  have path: "reqPath usersRequest = ''/api/v1/users''" by (simp add: usersRequest_def)
  note inst = C2_Match_respects_priority [OF sortByPriority_contract priorityRouter_def in0 in1
                    usersRequest_matches(1) usersRequest_matches(2) lt]
  from inst have ex: "\<exists>e. e \<in> set (routes priorityRouter)
         \<and> routeMatches asciiLower priorityRouter e usersRequest
         \<and> 39 \<le> priority e \<and> fst (Match asciiLower usersRequest priorityRouter) = Some 4
         \<and> objs (snd (Match asciiLower usersRequest priorityRouter)) 4
              = (objs priorityRouter (route e))
                  \<lparr>PathParams := fst (matchPath asciiLower (segments e) ''/api/v1/users'')\<rparr>"
    unfolding p0 path priorityRouter_objs(7) by blast
  from inst in1 have "priority (routes priorityRouter ! 1)
       = specPriority (parseSegments asciiLower (Pattern (objs priorityRouter (route (routes priorityRouter ! 1)))))"
    by blast
  then have sp: "priority (routes priorityRouter ! 1)
       = specPriority (parseSegments asciiLower (Pattern (objs priorityRouter 3)))"
    unfolding r1 .
  from sortByPriority_contract usersRequest_matches(1) usersRequest_matches(2) lt ex sp
  show ?thesis by blast
qed

subsection \<open>\<open>Match\<close> leaves the router as it is\<close>

lemma Match_frame:
  "routes (snd (Match lw req r)) = routes r
   \<and> (\<forall>a<nextAddr r. objs (snd (Match lw req r)) a = objs r a)
   \<and> nextAddr r \<le> nextAddr (snd (Match lw req r))
   \<and> (\<forall>a. fst (Match lw req r) = Some a \<longrightarrow> a = nextAddr r \<and> nextAddr (snd (Match lw req r)) = Suc a)
   \<and> (fst (Match lw req r) = None \<longrightarrow> snd (Match lw req r) = r)"
  by (auto simp: Match_def Let_def split: option.splits prod.splits)

lemma Match_seq_frame:
  "routes (snd (Match_seq lw reqs r)) = routes r
   \<and> (\<forall>a<nextAddr r. objs (snd (Match_seq lw reqs r)) a = objs r a)
   \<and> nextAddr r \<le> nextAddr (snd (Match_seq lw reqs r))
   \<and> (\<forall>a. Some a \<in> set (fst (Match_seq lw reqs r)) \<longrightarrow> nextAddr r \<le> a \<and> a < nextAddr (snd (Match_seq lw reqs r)))"
proof (induction reqs arbitrary: r)
  case Nil
  then show ?case by simp
next
  case (Cons q qs)
  obtain a r1 where m: "Match lw q r = (a, r1)" by (cases "Match lw q r")
  obtain as r2 where s: "Match_seq lw qs r1 = (as, r2)" by (cases "Match_seq lw qs r1")
  from Match_frame [of lw q r] m have f1: "routes r1 = routes r" "\<forall>a<nextAddr r. objs r1 a = objs r a"
    "nextAddr r \<le> nextAddr r1" "\<forall>x. a = Some x \<longrightarrow> x = nextAddr r \<and> nextAddr r1 = Suc x" by auto
  from Cons.IH [of r1] s have f2: "routes r2 = routes r1" "\<forall>a<nextAddr r1. objs r2 a = objs r1 a"
    "nextAddr r1 \<le> nextAddr r2" "\<forall>x. Some x \<in> set as \<longrightarrow> nextAddr r1 \<le> x \<and> x < nextAddr r2" by auto
  have eq: "Match_seq lw (q # qs) r = (a # as, r2)" using m s by simp
  have c1: "routes r2 = routes r" using f1 f2 by simp
  have c2: "\<forall>x<nextAddr r. objs r2 x = objs r x"
  proof (intro allI impI)
    fix x assume x: "x < nextAddr r"
    with f1(3) have "x < nextAddr r1" by simp
    with f2(2) have "objs r2 x = objs r1 x" by simp
    with f1(2) x show "objs r2 x = objs r x" by simp
  qed
  have c3: "nextAddr r \<le> nextAddr r2" using f1(3) f2(3) by simp
  have c4: "\<forall>x. Some x \<in> set (a # as) \<longrightarrow> nextAddr r \<le> x \<and> x < nextAddr r2"
  proof (intro allI impI)
    fix x assume "Some x \<in> set (a # as)"
    then consider "a = Some x" | "Some x \<in> set as" by auto
    then show "nextAddr r \<le> x \<and> x < nextAddr r2"
    proof cases
      case 1
      with f1(4) have "x = nextAddr r" "nextAddr r1 = Suc x" by auto
      with f2(3) show ?thesis by simp
    next
      case 2
      with f2(4) have "nextAddr r1 \<le> x" "x < nextAddr r2" by auto
      with f1(3) show ?thesis by simp
    qed
  qed
  show ?case unfolding eq fst_conv snd_conv using c1 c2 c3 c4 by blast
qed

lemma New_wfRouter: "sortContract srt \<Longrightarrow> wfRouter (New lw up srt cfgs)"
  using New_compiled [of srt lw up cfgs] by (simp add: wfRouter_def entriesCompiled_def)

text \<open>
  Claim C9.  \<open>Match\<close> never writes to the router.  After any sequence of \<open>Match\<close> calls
  the list of entries (with their compiled segments, priorities and order) is the one
  before, and the route object of every entry is unchanged; each address a call returns
  is a fresh one, not the address of any entry's route, so the captured parameters are
  attached to a copy made for that call only.
\<close>

theorem C9_Match_does_not_mutate:
  assumes wf: "wfRouter r"
  shows "routes (snd (Match_seq lw reqs r)) = routes r
       \<and> (\<forall>e\<in>set (routes r). objs (snd (Match_seq lw reqs r)) (route e) = objs r (route e))
       \<and> (\<forall>a. Some a \<in> set (fst (Match_seq lw reqs r)) \<longrightarrow> nextAddr r \<le> a \<and> a \<notin> route ` set (routes r))"
proof -
  note f = Match_seq_frame [of lw reqs r]
  have old: "\<forall>e\<in>set (routes r). route e < nextAddr r" using wf by (simp add: wfRouter_def)
  have c2: "\<forall>e\<in>set (routes r). objs (snd (Match_seq lw reqs r)) (route e) = objs r (route e)"
    using f old by blast
  have c3: "\<forall>a. Some a \<in> set (fst (Match_seq lw reqs r)) \<longrightarrow> nextAddr r \<le> a \<and> a \<notin> route ` set (routes r)"
  proof (intro allI impI conjI)
    fix a assume a: "Some a \<in> set (fst (Match_seq lw reqs r))"
    with f show le: "nextAddr r \<le> a" by blast
    show "a \<notin> route ` set (routes r)"
    proof
      assume "a \<in> route ` set (routes r)"
      then obtain e where "e \<in> set (routes r)" "a = route e" by auto
      with old have "a < nextAddr r" by auto
      with le show False by simp
    qed
  qed
  from f c2 c3 show ?thesis by blast
qed


theorem C9_Match_does_not_mutate_witness:
  "wfRouter priorityRouter
   \<and> routes (snd (Match_seq asciiLower [usersRequest, usersRequest] priorityRouter))
        = routes priorityRouter
   \<and> objs (snd (Match_seq asciiLower [usersRequest, usersRequest] priorityRouter)) 2
        = objs priorityRouter 2"
proof -
  have wf: "wfRouter priorityRouter"
    unfolding priorityRouter_def by (rule New_wfRouter [OF sortByPriority_contract])
  have in0: "routes priorityRouter ! 0 \<in> set (routes priorityRouter)"
    and r0: "route (routes priorityRouter ! 0) = 2"
    by (simp_all add: priorityRouter_routes)
  note inst = C9_Match_does_not_mutate [OF wf, of asciiLower "[usersRequest, usersRequest]"]
  from inst in0 have "objs (snd (Match_seq asciiLower [usersRequest, usersRequest] priorityRouter))
        (route (routes priorityRouter ! 0)) = objs priorityRouter (route (routes priorityRouter ! 0))"
    by blast
  then have "objs (snd (Match_seq asciiLower [usersRequest, usersRequest] priorityRouter)) 2
        = objs priorityRouter 2" unfolding r0 .
  with wf inst show ?thesis by blast
qed

section \<open>Properties of the balancers\<close>

subsection \<open>Round robin\<close>

lemma residues_rotate:
  "0 < n \<Longrightarrow> map (\<lambda>j. (c + j) mod n) [0..<n] = rotate c [0..<n]"
  by (rule nth_equalityI) (simp_all add: nth_rotate)

lemma count_window:
  assumes "i < n"
  shows "count_list (map (\<lambda>j. (c + j) mod n) [0..<n]) i = 1"
proof -
  have n: "0 < n" using assms by simp
  have "distinct (rotate c [0..<n])" by simp
  then have "count (mset (rotate c [0..<n])) i = (if i \<in> set (rotate c [0..<n]) then 1 else 0)"
    by (simp only: distinct_count_atmost_1)
  then have "count_list (rotate c [0..<n]) i = 1"
    using assms by (simp add: count_mset)
  then show ?thesis by (simp only: residues_rotate [OF n])
qed

lemma count_list_append: "count_list (xs @ ys) x = count_list xs x + count_list ys x"
  by (induction xs) auto

lemma count_windows:
  assumes "i < n"
  shows "count_list (map (\<lambda>j. (c + j) mod n) [0..<k * n]) i = k"
proof (induction k)
  case 0
  then show ?case by simp
next
  case (Suc k)
  have "[0..<k * n + n] = [0..<k * n] @ [k * n..<k * n + n]"
    by (rule upt_add_eq_append) simp
  also have "[k * n..<k * n + n] = map (\<lambda>j. j + k * n) [0..<n]"
    by (simp only: map_add_upt add.commute [of n])
  finally have split: "[0..<Suc k * n] = [0..<k * n] @ map (\<lambda>j. j + k * n) [0..<n]"
    by (simp only: mult_Suc add.commute [of n])
  have "map (\<lambda>j. (c + j) mod n) (map (\<lambda>j. j + k * n) [0..<n])
      = map (\<lambda>j. (c + j) mod n) [0..<n]"
    by (rule nth_equalityI) (simp_all add: add.assoc [symmetric])
  then have "map (\<lambda>j. (c + j) mod n) [0..<Suc k * n]
      = map (\<lambda>j. (c + j) mod n) [0..<k * n] @ map (\<lambda>j. (c + j) mod n) [0..<n]"
    unfolding split map_append by (rule arg_cong)
  then show ?case using Suc count_window [OF assms, of c] by (simp only: count_list_append)
qed

lemma RoundRobin_Next_live:
  assumes "rr_targets rr \<noteq> []" and "\<forall>t\<in>set (rr_targets rr). Healthy t"
  shows "RoundRobin_Next rr =
     (Some (unat (rr_current rr + 1) mod length (rr_targets rr)), rr\<lparr>rr_current := rr_current rr + 1\<rparr>)"
proof -
  obtain k where k: "length (rr_targets rr) = Suc k" using assms(1) by (cases "rr_targets rr") auto
  have "unat (rr_current rr + 1) mod length (rr_targets rr) < length (rr_targets rr)"
    using k by simp
  then have "Healthy (rr_targets rr ! (unat (rr_current rr + 1) mod length (rr_targets rr)))"
    using assms(2) by (meson nth_mem)
  then show ?thesis using k by (simp add: RoundRobin_Next_def Let_def del: upt_Suc)
qed

lemma RoundRobin_run_live:
  assumes "rr_targets rr \<noteq> []" and "\<forall>t\<in>set (rr_targets rr). Healthy t"
  shows "RoundRobin_run m rr =
     (map (\<lambda>j. Some (unat (rr_current rr + 1 + of_nat j) mod length (rr_targets rr))) [0..<m],
      rr\<lparr>rr_current := rr_current rr + of_nat m\<rparr>)"
  using assms
proof (induction m arbitrary: rr)
  case 0
  then show ?case by simp
next
  case (Suc m)
  let ?rr1 = "rr\<lparr>rr_current := rr_current rr + 1\<rparr>"
  have n1: "rr_targets ?rr1 \<noteq> []" and h1: "\<forall>t\<in>set (rr_targets ?rr1). Healthy t"
    using Suc.prems by simp_all
  have "[0..<Suc m] = 0 # map Suc [0..<m]" by (simp add: upt_conv_Cons map_Suc_upt del: upt_Suc)
  then show ?case
    using RoundRobin_Next_live [OF Suc.prems] Suc.IH [OF n1 h1]
    by (simp add: comp_def ac_simps del: upt_Suc)
qed


lemma unat_step:
  fixes c :: "64 word"
  assumes "unat c + 1 + j < 2 ^ 64"
  shows "unat (c + 1 + of_nat j) = unat c + 1 + j"
proof -
  define d :: "64 word" where "d = of_nat (Suc j)"
  have e: "c + 1 + of_nat j = c + d" by (simp add: d_def)
  have "unat d = Suc j mod 2 ^ 64" unfolding d_def by (simp add: unat_of_nat del: of_nat_Suc)
  also have "\<dots> = Suc j" using assms by simp
  finally have u: "unat d = Suc j" .
  have "unat c + unat d < 2 ^ LENGTH(64)" using assms u by simp
  then have "unat (c + d) = unat c + unat d" by (simp only: unat_add_lem)
  then show ?thesis unfolding e u by simp
qed

lemma count_list_map_Some: "count_list (map Some xs) (Some i) = count_list xs i"
  by (induction xs) auto

text \<open>
  Claim C8, as amended.  For a round-robin balancer over \<open>N \<ge> 1\<close> targets, all live and
  with liveness unchanged, any \<open>k \<cdot> N\<close> consecutive \<open>Next\<close> calls during which the
  64-bit counter does not wrap around return each target exactly \<open>k\<close> times.  The
  counter starts at 0 and grows by one per call, so this covers every window within the
  first \<open>2^64 - 1\<close> calls.
\<close>

theorem C8_round_robin_even_share:
  assumes ne: "rr_targets rr \<noteq> []" and live: "\<forall>t\<in>set (rr_targets rr). Healthy t"
    and nowrap: "unat (rr_current rr) + k * length (rr_targets rr) < 2 ^ 64"
    and i: "i < length (rr_targets rr)"
  shows "count_list (fst (RoundRobin_run (k * length (rr_targets rr)) rr)) (Some i) = k"
proof -
  let ?n = "length (rr_targets rr)"
  let ?c = "unat (rr_current rr) + 1"
  have "map (\<lambda>j. Some (unat (rr_current rr + 1 + of_nat j) mod ?n)) [0..<k * ?n]
      = map Some (map (\<lambda>j. (?c + j) mod ?n) [0..<k * ?n])"
  proof (rule nth_equalityI)
    show "length (map (\<lambda>j. Some (unat (rr_current rr + 1 + of_nat j) mod ?n)) [0..<k * ?n])
        = length (map Some (map (\<lambda>j. (?c + j) mod ?n) [0..<k * ?n]))" by simp
  next
    fix j assume "j < length (map (\<lambda>j. Some (unat (rr_current rr + 1 + of_nat j) mod ?n)) [0..<k * ?n])"
    then have j: "j < k * ?n" by simp
    then have "unat (rr_current rr) + 1 + j < 2 ^ 64" using nowrap by simp
    then have "unat (rr_current rr + 1 + of_nat j) = ?c + j" by (rule unat_step)
    with j show "map (\<lambda>j. Some (unat (rr_current rr + 1 + of_nat j) mod ?n)) [0..<k * ?n] ! j
        = map Some (map (\<lambda>j. (?c + j) mod ?n) [0..<k * ?n]) ! j" by simp
  qed
  then have "fst (RoundRobin_run (k * ?n) rr) = map Some (map (\<lambda>j. (?c + j) mod ?n) [0..<k * ?n])"
    by (simp only: RoundRobin_run_live [OF ne live] fst_conv)
  then show ?thesis by (simp only: count_list_map_Some count_windows [OF i])
qed

lemma NewRoundRobin_live: "\<forall>t\<in>set (rr_targets (NewRoundRobin ts)). Healthy t"
  by (simp add: NewRoundRobin_def)

lemma abc_len: "length (rr_targets (NewRoundRobin abcTargets)) = 3"
  by (simp add: NewRoundRobin_def abcTargets_def makeTargets_def)

text \<open>
  The repository's test \<open>TestRoundRobin_Next\<close>: nine calls on three targets, three
  each.
\<close>

theorem C8_round_robin_even_share_witness:
  "count_list (fst (RoundRobin_run 9 (NewRoundRobin abcTargets))) (Some 0) = 3
   \<and> count_list (fst (RoundRobin_run 9 (NewRoundRobin abcTargets))) (Some 1) = 3
   \<and> count_list (fst (RoundRobin_run 9 (NewRoundRobin abcTargets))) (Some 2) = 3"
proof -
  have ne: "rr_targets (NewRoundRobin abcTargets) \<noteq> []" using abc_len by auto
  have nw: "unat (rr_current (NewRoundRobin abcTargets)) + 3 * length (rr_targets (NewRoundRobin abcTargets)) < 2 ^ 64"
    by (simp add: abc_len) (simp add: NewRoundRobin_def)
  have "i < length (rr_targets (NewRoundRobin abcTargets)) \<Longrightarrow>
        count_list (fst (RoundRobin_run 9 (NewRoundRobin abcTargets))) (Some i) = 3" for i
    using C8_round_robin_even_share [OF ne NewRoundRobin_live nw, of i] by (simp add: abc_len)
  then show ?thesis by (simp add: abc_len)
qed

lemma wrap_live: "\<forall>t\<in>set (rr_targets wrappingRoundRobin). Healthy t"
  by (simp add: wrappingRoundRobin_def NewRoundRobin_def)


lemma wrap_len: "length (rr_targets wrappingRoundRobin) = 3"
  by (simp add: wrappingRoundRobin_def abc_len)

lemma wrap_run: "fst (RoundRobin_run 3 wrappingRoundRobin) = [Some 2, Some 0, Some 0]"
proof -
  have ne: "rr_targets wrappingRoundRobin \<noteq> []" using wrap_len by auto
  have c: "rr_current wrappingRoundRobin = 18446744073709551613"
    by (simp add: wrappingRoundRobin_def)
  have u: "[0..<3] = [0, 1, 2]" by (simp add: upt_conv_Cons)
  show ?thesis
    unfolding RoundRobin_run_live [OF ne wrap_live] fst_conv wrap_len c u
    by simp
qed

text \<open>
  The claim as stated fails where the counter wraps: \<open>2^64\<close> is not a multiple of 3, so
  the three calls that take the counter from \<open>2^64 - 3\<close> to 0 return the targets 2, 0, 0,
  and target 1 is not selected in this window of \<open>1 \<cdot> N\<close> calls.
\<close>

theorem C8_round_robin_counter_wrap_counterexample:
  "length (rr_targets wrappingRoundRobin) = 3
   \<and> list_all Healthy (rr_targets wrappingRoundRobin)
   \<and> fst (RoundRobin_run (1 * 3) wrappingRoundRobin) = [Some 2, Some 0, Some 0]
   \<and> count_list (fst (RoundRobin_run (1 * 3) wrappingRoundRobin)) (Some 1) \<noteq> 1"
  using wrap_live by (simp add: wrap_len wrap_run list_all_iff)


subsection \<open>Weighted round robin\<close>

lemma NewWeightedRoundRobin_loop_eq:
  "NewWeightedRoundRobin_loop ts ws m =
     (ws @ map effectiveWeight ts, foldl (\<lambda>m w. if w > m then w else m) m (map effectiveWeight ts))"
  by (induction ts arbitrary: ws m) (simp_all add: effectiveWeight_def Let_def)

lemma foldl_max_ge: "m \<le> foldl (\<lambda>m w. if w > m then w else m) m (ws :: int list)"
proof (induction ws arbitrary: m)
  case Nil
  then show ?case by simp
next
  case (Cons w ws)
  have "m \<le> (if w > m then w else m)" by simp
  also have "\<dots> \<le> foldl (\<lambda>m w. if w > m then w else m) (if w > m then w else m) ws" by (rule Cons.IH)
  finally show ?case by simp
qed

lemma foldl_max_upper: "w \<in> set ws \<Longrightarrow> w \<le> foldl (\<lambda>m w. if w > m then w else m) m (ws :: int list)"
proof (induction ws arbitrary: m)
  case Nil
  then show ?case by simp
next
  case (Cons x ws)
  show ?case
  proof (cases "w = x")
    case True
    have "w \<le> (if x > m then x else m)" using True by simp
    also have "\<dots> \<le> foldl (\<lambda>m w. if w > m then w else m) (if x > m then x else m) ws" by (rule foldl_max_ge)
    finally show ?thesis by simp
  next
    case False
    with Cons.prems have "w \<in> set ws" by simp
    from Cons.IH [OF this] show ?thesis by simp
  qed
qed

lemma foldl_max_mem:
  "foldl (\<lambda>m w. if w > m then w else m) m (ws :: int list) = m
   \<or> foldl (\<lambda>m w. if w > m then w else m) m ws \<in> set ws"
proof (induction ws arbitrary: m)
  case Nil
  then show ?case by simp
next
  case (Cons x ws)
  from Cons.IH [of "if x > m then x else m"] show ?case by (auto split: if_splits)
qed

lemma go_gcd_eq: "0 \<le> a \<Longrightarrow> 0 \<le> b \<Longrightarrow> go_gcd a b = gcd a b"
proof (induction a b rule: go_gcd.induct)
  case (1 a b)
  show ?case
  proof (cases "b = 0")
    case True
    with 1 show ?thesis by (simp add: go_gcd.simps [of a 0])
  next
    case False
    with 1 have b: "0 < b" by simp
    have r: "go_rem a b = a mod b" using 1(2) b by (cases "a = 0") (simp_all add: go_rem_def)
    have "0 \<le> go_rem a b" using r b by simp
    with 1 False have "go_gcd b (go_rem a b) = gcd b (go_rem a b)" by simp
    also have "\<dots> = gcd a b" unfolding r by (metis gcd.commute gcd_red_int)
    finally show ?thesis using False by (simp add: go_gcd.simps [of a b])
  qed
qed

lemma foldl_go_gcd:
  "0 < x \<Longrightarrow> \<forall>w\<in>set xs. 0 < w \<Longrightarrow>
   0 < foldl go_gcd x xs \<and> foldl go_gcd x xs dvd x \<and> (\<forall>w\<in>set xs. foldl go_gcd x xs dvd w)"
proof (induction xs arbitrary: x)
  case Nil
  then show ?case by simp
next
  case (Cons y ys)
  have y: "0 < y" using Cons.prems by simp
  have g: "go_gcd x y = gcd x y" using Cons.prems(1) y by (simp add: go_gcd_eq)
  have gp: "0 < gcd x y" using y by (simp add: gcd_pos_int)
  have ys: "\<forall>w\<in>set ys. 0 < w" using Cons.prems by simp
  from Cons.IH [OF gp ys] have ih: "0 < foldl go_gcd (gcd x y) ys"
    "foldl go_gcd (gcd x y) ys dvd gcd x y" "\<forall>w\<in>set ys. foldl go_gcd (gcd x y) ys dvd w" by auto
  from ih(2) have "foldl go_gcd (gcd x y) ys dvd x" "foldl go_gcd (gcd x y) ys dvd y"
    by (meson dvd_trans gcd_dvd1 gcd_dvd2)+
  with ih show ?case by (simp add: g)
qed

lemma gcdSlice_dvd:
  "ws \<noteq> [] \<Longrightarrow> \<forall>w\<in>set ws. 0 < w \<Longrightarrow> 0 < gcdSlice ws \<and> (\<forall>w\<in>set ws. gcdSlice ws dvd w)"
  using foldl_go_gcd by (cases ws) (auto simp: gcdSlice_def)

lemma effectiveWeight_pos: "0 < effectiveWeight t"
  by (simp add: effectiveWeight_def)

lemma NewWeightedRoundRobin_facts:
  assumes "ts \<noteq> []"
  shows "wrr_targets (NewWeightedRoundRobin ts) = map (\<lambda>t. t\<lparr>Healthy := True\<rparr>) ts"
    and "weights (NewWeightedRoundRobin ts) = map effectiveWeight ts"
    and "currentWeight (NewWeightedRoundRobin ts) = 0"
    and "current (NewWeightedRoundRobin ts) = - 1"
    and "0 < wrr_gcd (NewWeightedRoundRobin ts)"
    and "\<forall>w\<in>set (weights (NewWeightedRoundRobin ts)). wrr_gcd (NewWeightedRoundRobin ts) dvd w"
    and "wrr_gcd (NewWeightedRoundRobin ts) dvd maxWeight (NewWeightedRoundRobin ts)"
    and "0 < maxWeight (NewWeightedRoundRobin ts)"
proof -
  let ?W = "map effectiveWeight ts"
  have ew: "effectiveWeight (t\<lparr>Healthy := True\<rparr>) = effectiveWeight t" for t
    by (simp add: effectiveWeight_def)
  have ewc: "effectiveWeight \<circ> Healthy_update (\<lambda>_. True) = effectiveWeight"
    by (rule ext) (simp add: effectiveWeight_def)
  have W: "map effectiveWeight (map (\<lambda>t. t\<lparr>Healthy := True\<rparr>) ts) = ?W"
    by (simp add: ewc)
  show t: "wrr_targets (NewWeightedRoundRobin ts) = map (\<lambda>t. t\<lparr>Healthy := True\<rparr>) ts"
    by (simp add: NewWeightedRoundRobin_def NewWeightedRoundRobin_loop_eq Let_def)
  show w: "weights (NewWeightedRoundRobin ts) = ?W"
    by (simp add: NewWeightedRoundRobin_def NewWeightedRoundRobin_loop_eq Let_def ewc)
  show "currentWeight (NewWeightedRoundRobin ts) = 0" "current (NewWeightedRoundRobin ts) = - 1"
    by (simp_all add: NewWeightedRoundRobin_def NewWeightedRoundRobin_loop_eq Let_def)
  have g: "wrr_gcd (NewWeightedRoundRobin ts) = gcdSlice ?W"
    by (simp add: NewWeightedRoundRobin_def NewWeightedRoundRobin_loop_eq Let_def ewc)
  have m: "maxWeight (NewWeightedRoundRobin ts) = foldl (\<lambda>m w. if w > m then w else m) 0 ?W"
    by (simp add: NewWeightedRoundRobin_def NewWeightedRoundRobin_loop_eq Let_def ewc)
  have pos: "\<forall>w\<in>set ?W. 0 < w" by (simp add: effectiveWeight_pos)
  have ne: "?W \<noteq> []" using assms by simp
  from gcdSlice_dvd [OF ne pos] have gd: "0 < gcdSlice ?W" "\<forall>w\<in>set ?W. gcdSlice ?W dvd w" by auto
  show "0 < wrr_gcd (NewWeightedRoundRobin ts)" using gd g by simp
  show "\<forall>w\<in>set (weights (NewWeightedRoundRobin ts)). wrr_gcd (NewWeightedRoundRobin ts) dvd w"
    using gd g w by simp
  obtain x where x: "x \<in> set ?W" using ne by (cases ?W) auto
  then have "0 < x" using pos by blast
  also have "x \<le> foldl (\<lambda>m w. if w > m then w else m) 0 ?W" using x by (rule foldl_max_upper)
  finally show mp: "0 < maxWeight (NewWeightedRoundRobin ts)" using m by simp
  from foldl_max_mem [of 0 ?W] mp m have "maxWeight (NewWeightedRoundRobin ts) \<in> set ?W" by auto
  with gd(2) have "gcdSlice ?W dvd maxWeight (NewWeightedRoundRobin ts)" by blast
  with g show "wrr_gcd (NewWeightedRoundRobin ts) dvd maxWeight (NewWeightedRoundRobin ts)" by simp
qed


lemma go_rem_small: "0 \<le> a \<Longrightarrow> a < b \<Longrightarrow> go_rem a b = a"
  by (cases "a = 0") (simp_all add: go_rem_def)

lemma go_rem_self: "0 < b \<Longrightarrow> go_rem b b = 0"
  by (simp add: go_rem_def)

lemma advance_fields:
  "wrr_targets (wrr_advance s) = wrr_targets s" "weights (wrr_advance s) = weights s"
  "maxWeight (wrr_advance s) = maxWeight s" "wrr_gcd (wrr_advance s) = wrr_gcd s"
  by (simp_all add: wrr_advance_def Let_def)

lemma advance_mid:
  assumes "0 \<le> c" "c + 1 < int (length (wrr_targets s))"
  shows "wrr_advance (s\<lparr>current := c, currentWeight := cw\<rparr>) = s\<lparr>current := c + 1, currentWeight := cw\<rparr>"
  using assms by (simp add: wrr_advance_def Let_def go_rem_small)

lemma advance_wrap:
  assumes "c = - 1 \<or> c + 1 = int (length (wrr_targets s))" "0 < length (wrr_targets s)"
  shows "wrr_advance (s\<lparr>current := c, currentWeight := cw\<rparr>)
     = s\<lparr>current := 0, currentWeight := (if cw - wrr_gcd s \<le> 0 then maxWeight s else cw - wrr_gcd s)\<rparr>"
  using assms by (auto simp add: wrr_advance_def Let_def go_rem_self go_rem_def)

lemma advance_inv:
  assumes "wrrInv s"
  shows "wrrInv (wrr_advance s) \<and> 0 \<le> current (wrr_advance s)"
proof -
  have n: "0 < length (wrr_targets s)" and c: "- 1 \<le> current s" "current s < int (length (wrr_targets s))"
    and l: "length (weights s) = length (wrr_targets s)"
    using assms by (simp_all add: wrrInv_def)
  have r: "0 \<le> go_rem (current s + 1) (int (length (wrr_targets s)))
       \<and> go_rem (current s + 1) (int (length (wrr_targets s))) < int (length (wrr_targets s))"
  proof (cases "current s + 1 = int (length (wrr_targets s))")
    case True
    then show ?thesis using n by (simp add: go_rem_self)
  next
    case False
    then have "go_rem (current s + 1) (int (length (wrr_targets s))) = current s + 1"
      using c by (intro go_rem_small) auto
    then show ?thesis using c False by auto
  qed
  have cur: "current (wrr_advance s) = go_rem (current s + 1) (int (length (wrr_targets s)))"
    by (simp add: wrr_advance_def Let_def)
  show ?thesis using r l n by (simp add: wrrInv_def advance_fields cur)
qed

lemma loop_step:
  assumes "wrrInv s"
  shows "WeightedRoundRobin_loop s =
     (if wrrAccepts (wrr_advance s) then Some (Return (nat (current (wrr_advance s)), wrr_advance s))
      else if current (wrr_advance s) = 0 \<and> currentWeight (wrr_advance s) = maxWeight (wrr_advance s)
        then Some (Return (0, wrr_advance s))
      else WeightedRoundRobin_loop (wrr_advance s))"
proof -
  from advance_inv [OF assms] have "\<not> (current (wrr_advance s) < 0
       \<or> int (length (weights (wrr_advance s))) \<le> current (wrr_advance s))"
    by (auto simp: wrrInv_def)
  then show ?thesis
    by (subst WeightedRoundRobin_loop.simps) (simp add: Let_def wrrAccepts_def)
qed

lemma Next_returns:
  assumes "wrrInv s" "wrrReturns (wrr_advance s) t"
  shows "WeightedRoundRobin_Next s = Some (Return (Some t, wrr_advance s))"
  using assms loop_step [OF assms(1)]
  by (auto simp: WeightedRoundRobin_Next_def wrrReturns_def wrrInv_def)

lemma Next_continues:
  assumes "wrrInv s" "\<forall>t. \<not> wrrReturns (wrr_advance s) t"
  shows "WeightedRoundRobin_Next s = WeightedRoundRobin_Next (wrr_advance s)"
proof -
  have "WeightedRoundRobin_loop s = WeightedRoundRobin_loop (wrr_advance s)"
    using assms(2) loop_step [OF assms(1)] by (auto simp: wrrReturns_def)
  then show ?thesis using assms(1) by (simp add: WeightedRoundRobin_Next_def advance_fields wrrInv_def)
qed

lemma iteration_is_a_call:
  "wrrInv s \<Longrightarrow> wrrReturns ((wrr_advance ^^ Suc k) s) t \<Longrightarrow>
   \<exists>m res. WeightedRoundRobin_run (Suc m) s = Some (Return (res, (wrr_advance ^^ Suc k) s))
       \<and> res \<noteq> [] \<and> last res = Some t"
proof (induction k arbitrary: s)
  case 0
  then have "WeightedRoundRobin_Next s = Some (Return (Some t, wrr_advance s))"
    by (simp add: Next_returns)
  then have "WeightedRoundRobin_run (Suc 0) s = Some (Return ([Some t], (wrr_advance ^^ Suc 0) s))"
    by simp
  then show ?case by (intro exI [of _ 0] exI [of _ "[Some t]"]) simp
next
  case (Suc k)
  let ?s1 = "wrr_advance s"
  have inv1: "wrrInv ?s1" using advance_inv [OF Suc.prems(1)] by simp
  have shift: "(wrr_advance ^^ Suc (Suc k)) s = (wrr_advance ^^ Suc k) ?s1"
    by (simp only: funpow_Suc_right comp_def)
  from Suc.prems(2) have "wrrReturns ((wrr_advance ^^ Suc k) ?s1) t" by (simp only: shift)
  from Suc.IH [OF inv1 this] obtain m res where
    run1: "WeightedRoundRobin_run (Suc m) ?s1 = Some (Return (res, (wrr_advance ^^ Suc k) ?s1))"
    and res: "res \<noteq> []" "last res = Some t" by blast
  show ?case
  proof (cases "\<exists>t1. wrrReturns ?s1 t1")
    case True
    then obtain t1 where "wrrReturns ?s1 t1" ..
    then have "WeightedRoundRobin_Next s = Some (Return (Some t1, ?s1))"
      using Suc.prems(1) by (simp add: Next_returns)
    then have "WeightedRoundRobin_run (Suc (Suc m)) s
        = Some (Return (Some t1 # res, (wrr_advance ^^ Suc (Suc k)) s))"
      using run1 by (simp only: WeightedRoundRobin_run.simps shift) simp
    with res show ?thesis by (intro exI [of _ "Suc m"] exI [of _ "Some t1 # res"]) simp
  next
    case False
    then have "WeightedRoundRobin_Next s = WeightedRoundRobin_Next ?s1"
      using Suc.prems(1) by (simp add: Next_continues)
    then have "WeightedRoundRobin_run (Suc m) s = WeightedRoundRobin_run (Suc m) ?s1"
      by (simp only: WeightedRoundRobin_run.simps)
    with run1 have "WeightedRoundRobin_run (Suc m) s
        = Some (Return (res, (wrr_advance ^^ Suc (Suc k)) s))"
      by (simp only: shift)
    with res show ?thesis by (intro exI [of _ m] exI [of _ res]) simp
  qed
qed


lemma pow_mid:
  "j < length (wrr_targets s) \<Longrightarrow>
   (wrr_advance ^^ j) (s\<lparr>current := 0, currentWeight := cw\<rparr>) = s\<lparr>current := int j, currentWeight := cw\<rparr>"
proof (induction j)
  case 0
  then show ?case by simp
next
  case (Suc j)
  then have ih: "(wrr_advance ^^ j) (s\<lparr>current := 0, currentWeight := cw\<rparr>)
      = s\<lparr>current := int j, currentWeight := cw\<rparr>" by simp
  have "wrr_advance (s\<lparr>current := int j, currentWeight := cw\<rparr>)
      = s\<lparr>current := int j + 1, currentWeight := cw\<rparr>"
    using Suc.prems by (intro advance_mid) auto
  then show ?case by (simp add: ih add.commute)
qed

lemma pow_cycle:
  assumes "0 < length (wrr_targets s)"
  shows "(wrr_advance ^^ length (wrr_targets s)) (s\<lparr>current := 0, currentWeight := cw\<rparr>)
     = s\<lparr>current := 0,
         currentWeight := (if cw - wrr_gcd s \<le> 0 then maxWeight s else cw - wrr_gcd s)\<rparr>"
proof -
  obtain k where k: "length (wrr_targets s) = Suc k" using assms by (cases "length (wrr_targets s)") auto
  have "(wrr_advance ^^ k) (s\<lparr>current := 0, currentWeight := cw\<rparr>)
      = s\<lparr>current := int k, currentWeight := cw\<rparr>"
    using k by (intro pow_mid) simp
  moreover have "wrr_advance (s\<lparr>current := int k, currentWeight := cw\<rparr>)
      = s\<lparr>current := 0,
          currentWeight := (if cw - wrr_gcd s \<le> 0 then maxWeight s else cw - wrr_gcd s)\<rparr>"
    using k assms by (intro advance_wrap) auto
  ultimately show ?thesis by (simp add: k)
qed

lemma pow_cycles:
  assumes n: "0 < length (wrr_targets s)" and g: "0 < wrr_gcd s"
    and M: "maxWeight s = wrr_gcd s * int q"
  shows "j < q \<Longrightarrow>
     (wrr_advance ^^ (length (wrr_targets s) * j)) (s\<lparr>current := 0, currentWeight := maxWeight s\<rparr>)
       = s\<lparr>current := 0, currentWeight := maxWeight s - wrr_gcd s * int j\<rparr>"
proof (induction j)
  case 0
  then show ?case by simp
next
  case (Suc j)
  let ?n = "length (wrr_targets s)"
  let ?x = "s\<lparr>current := 0, currentWeight := maxWeight s\<rparr>"
  have ih: "(wrr_advance ^^ (?n * j)) ?x = s\<lparr>current := 0, currentWeight := maxWeight s - wrr_gcd s * int j\<rparr>"
    using Suc by simp
  have "int (Suc j) < int q" using Suc.prems by simp
  then have "wrr_gcd s * int (Suc j) < wrr_gcd s * int q" using g by (simp only: mult_strict_left_mono)
  then have pos: "\<not> (maxWeight s - wrr_gcd s * int j - wrr_gcd s \<le> 0)"
    by (simp add: M algebra_simps)
  have "(wrr_advance ^^ (?n * Suc j)) ?x = (wrr_advance ^^ ?n) ((wrr_advance ^^ (?n * j)) ?x)"
    by (simp add: funpow_add)
  also have "\<dots> = (wrr_advance ^^ ?n) (s\<lparr>current := 0, currentWeight := maxWeight s - wrr_gcd s * int j\<rparr>)"
    by (simp only: ih)
  also have "\<dots> = s\<lparr>current := 0, currentWeight := maxWeight s - wrr_gcd s * int j - wrr_gcd s\<rparr>"
    using pos by (simp only: pow_cycle [OF n] if_False)
  also have "maxWeight s - wrr_gcd s * int j - wrr_gcd s = maxWeight s - wrr_gcd s * int (Suc j)"
    by (simp add: algebra_simps)
  finally show ?case .
qed

lemma New_inv: "ts \<noteq> [] \<Longrightarrow> wrrInv (NewWeightedRoundRobin ts)"
  by (simp add: wrrInv_def NewWeightedRoundRobin_facts)

lemma reach_gcd_pass:
  assumes ne: "ts \<noteq> []" and i: "i < length ts"
  shows "\<exists>k. (wrr_advance ^^ Suc k) (NewWeightedRoundRobin ts)
      = (NewWeightedRoundRobin ts)\<lparr>current := int i, currentWeight := wrr_gcd (NewWeightedRoundRobin ts)\<rparr>"
proof -
  let ?s = "NewWeightedRoundRobin ts"
  let ?n = "length (wrr_targets ?s)"
  note f = NewWeightedRoundRobin_facts [OF ne]
  have n: "0 < ?n" and len: "?n = length ts" using ne by (simp_all add: f(1))
  have g: "0 < wrr_gcd ?s" by (rule f(5))
  from f(7) obtain q0 where q0: "maxWeight ?s = wrr_gcd ?s * q0" by (auto simp: dvd_def)
  with f(8) g have "0 < q0" by (simp add: zero_less_mult_iff)
  then obtain p where p: "q0 = int (Suc p)" by (metis Suc_pred' nat_0_less_mult_iff of_nat_0_less_iff pos_int_cases)
  have M: "maxWeight ?s = wrr_gcd ?s * int (Suc p)" using q0 p by simp
  have fresh: "?s = ?s\<lparr>current := - 1, currentWeight := 0\<rparr>" by (simp add: f(3,4))
  have "wrr_advance (?s\<lparr>current := - 1, currentWeight := 0\<rparr>)
      = ?s\<lparr>current := 0, currentWeight := (if 0 - wrr_gcd ?s \<le> 0 then maxWeight ?s else 0 - wrr_gcd ?s)\<rparr>"
    using n by (intro advance_wrap) auto
  then have first: "wrr_advance ?s = ?s\<lparr>current := 0, currentWeight := maxWeight ?s\<rparr>"
    using g fresh by simp
  have cyc: "(wrr_advance ^^ (?n * p)) (?s\<lparr>current := 0, currentWeight := maxWeight ?s\<rparr>)
      = ?s\<lparr>current := 0, currentWeight := maxWeight ?s - wrr_gcd ?s * int p\<rparr>"
    by (rule pow_cycles [OF n g M]) simp
  have "maxWeight ?s - wrr_gcd ?s * int p = wrr_gcd ?s" by (simp add: M algebra_simps)
  then have cyc': "(wrr_advance ^^ (?n * p)) (?s\<lparr>current := 0, currentWeight := maxWeight ?s\<rparr>)
      = ?s\<lparr>current := 0, currentWeight := wrr_gcd ?s\<rparr>" using cyc by simp
  have last: "(wrr_advance ^^ i) (?s\<lparr>current := 0, currentWeight := wrr_gcd ?s\<rparr>)
      = ?s\<lparr>current := int i, currentWeight := wrr_gcd ?s\<rparr>"
    using i len by (intro pow_mid) simp
  have "(wrr_advance ^^ Suc (i + ?n * p)) ?s
      = (wrr_advance ^^ i) ((wrr_advance ^^ (?n * p)) (wrr_advance ?s))"
    by (simp only: funpow_Suc_right funpow_add comp_def)
  also have "\<dots> = ?s\<lparr>current := int i, currentWeight := wrr_gcd ?s\<rparr>"
    by (simp only: first cyc' last)
  finally show ?thesis by blast
qed

text \<open>
  Claim C4, as amended.  A weight that is not positive is replaced by 1 when the weighted
  balancer is built, so a zero-weight target is scheduled like a target of weight 1 and
  \<open>Next\<close> does return it: for every target list and every target \<open>i\<close> of it, whatever
  its configured weight, the balancer works with the weight itself if it is positive and
  with 1 otherwise, and some call in a run of consecutive \<open>Next\<close> calls on the fresh
  balancer (all targets live) returns target \<open>i\<close>.
\<close>

theorem C4_zero_weight_target_is_selected:
  assumes i: "i < length ts"
  shows "weights (NewWeightedRoundRobin ts) ! i = (if Weight (ts ! i) \<le> 0 then 1 else Weight (ts ! i))
       \<and> (\<exists>m res s'. WeightedRoundRobin_run m (NewWeightedRoundRobin ts) = Some (Return (res, s'))
              \<and> res \<noteq> [] \<and> last res = Some i)"
proof -
  let ?s = "NewWeightedRoundRobin ts"
  have ne: "ts \<noteq> []" using i by auto
  note f = NewWeightedRoundRobin_facts [OF ne]
  have w: "weights ?s ! i = effectiveWeight (ts ! i)" using i by (simp add: f(2))
  from reach_gcd_pass [OF ne i] obtain k where
    k: "(wrr_advance ^^ Suc k) ?s = ?s\<lparr>current := int i, currentWeight := wrr_gcd ?s\<rparr>" ..
  have "weights ?s ! i \<in> set (weights ?s)" using i by (simp add: f(2))
  with f(6) have "wrr_gcd ?s dvd weights ?s ! i" by blast
  moreover have "0 < weights ?s ! i" using w by (simp add: effectiveWeight_pos)
  ultimately have le: "wrr_gcd ?s \<le> weights ?s ! i" by (rule zdvd_imp_le)
  have h: "Healthy (wrr_targets ?s ! i)" using i by (simp add: f(1))
  have "wrrReturns (?s\<lparr>current := int i, currentWeight := wrr_gcd ?s\<rparr>) i"
    using le h by (simp add: wrrReturns_def wrrAccepts_def)
  then have "wrrReturns ((wrr_advance ^^ Suc k) ?s) i" by (simp only: k)
  from iteration_is_a_call [OF New_inv [OF ne] this]
  have "\<exists>m res s'. WeightedRoundRobin_run m ?s = Some (Return (res, s')) \<and> res \<noteq> [] \<and> last res = Some i"
    by blast
  with w show ?thesis by (simp add: effectiveWeight_def)
qed

lemma len10: "length (targetsWithWeights [1, 0]) = 2" "Weight (targetsWithWeights [1, 0] ! Suc 0) = 0"
  by (simp_all add: targetsWithWeights_def)

theorem C4_zero_weight_target_is_selected_witness:
  "weights (NewWeightedRoundRobin (targetsWithWeights [1, 0])) ! 1 = 1
   \<and> (\<exists>m res s'. WeightedRoundRobin_run m (NewWeightedRoundRobin (targetsWithWeights [1, 0]))
                   = Some (Return (res, s')) \<and> res \<noteq> [] \<and> last res = Some 1)"
  using C4_zero_weight_target_is_selected [of 1 "targetsWithWeights [1, 0]"] by (simp add: len10)

lemma new10: "NewWeightedRoundRobin (targetsWithWeights [1, 0]) =
  \<lparr>wrr_targets = [\<lparr>URL = [], Weight = 1, Healthy = True, Connections = 0\<rparr>,
                  \<lparr>URL = [], Weight = 0, Healthy = True, Connections = 0\<rparr>],
   weights = [1, 1], currentWeight = 0, maxWeight = 1, wrr_gcd = 1, current = - 1\<rparr>"
  by (simp add: NewWeightedRoundRobin_def targetsWithWeights_def gcdSlice_def go_rem_def go_gcd.simps)

text \<open>
  The claim as stated fails: with weights 1 and 0, both targets live, the second call
  returns the zero-weight target.
\<close>

theorem C4_zero_weight_selected_counterexample:
  "Weight (wrr_targets (NewWeightedRoundRobin (targetsWithWeights [1, 0])) ! 1) = 0
   \<and> list_all Healthy (wrr_targets (NewWeightedRoundRobin (targetsWithWeights [1, 0])))
   \<and> map_option (map_outcome fst) (WeightedRoundRobin_run 2 (NewWeightedRoundRobin (targetsWithWeights [1, 0])))
       = Some (Return [Some 0, Some 1])"
  unfolding new10
  by (simp add: numeral_2_eq_2 WeightedRoundRobin_Next_def WeightedRoundRobin_loop.simps
        wrr_advance_def go_rem_def Let_def)

lemma new12: "NewWeightedRoundRobin (targetsWithWeights [1, 2]) =
  \<lparr>wrr_targets = [\<lparr>URL = [], Weight = 1, Healthy = True, Connections = 0\<rparr>,
                  \<lparr>URL = [], Weight = 2, Healthy = True, Connections = 0\<rparr>],
   weights = [1, 2], currentWeight = 0, maxWeight = 2, wrr_gcd = 1, current = - 1\<rparr>"
  by (simp add: NewWeightedRoundRobin_def targetsWithWeights_def gcdSlice_def go_rem_def go_gcd.simps)

text \<open>
  Claim C3 does not hold of the code.  With weights 1 and 2, both targets live, the first
  \<open>sum(w) \<cdot> 1 = 3\<close> calls on the fresh balancer return the targets 0, 1, 0: target 1,
  of weight 2, is selected once and not twice.  The last test of the loop,
  \<open>current == 0 && currentWeight == maxWeight\<close>, returns \<open>targets[0]\<close> at the start of
  every cycle in which the first target has less than the maximum weight.
\<close>

theorem C3_weighted_first_target_extra_selection:
  "list_all Healthy (wrr_targets (NewWeightedRoundRobin (targetsWithWeights [1, 2])))
   \<and> weights (NewWeightedRoundRobin (targetsWithWeights [1, 2])) = [1, 2]
   \<and> map_option (map_outcome fst) (WeightedRoundRobin_run ((1 + 2) * 1) (NewWeightedRoundRobin (targetsWithWeights [1, 2])))
       = Some (Return [Some 0, Some 1, Some 0])
   \<and> count_list [Some 0, Some 1, Some (0::nat)] (Some 1) \<noteq> 1 * 2"
  unfolding new12
  by (simp add: numeral_3_eq_3 WeightedRoundRobin_Next_def WeightedRoundRobin_loop.simps
        wrr_advance_def go_rem_def Let_def)


section \<open>Properties of the rate limiter\<close>

subsection \<open>The token level\<close>

lemma rnd_nonneg: "roundingContract rnd \<Longrightarrow> 0 \<le> x \<Longrightarrow> 0 \<le> rnd x"
  unfolding roundingContract_def by (metis monoD)

lemma rnd_mono: "roundingContract rnd \<Longrightarrow> x \<le> y \<Longrightarrow> rnd x \<le> rnd y"
  unfolding roundingContract_def by (metis monoD)

lemma go_quot_nonneg: "0 \<le> a \<Longrightarrow> 0 < b \<Longrightarrow> 0 \<le> go_quot a b"
  by (cases "a = 0") (simp_all add: go_quot_def pos_imp_zdiv_nonneg_iff)

lemma go_rem_nonneg: "0 \<le> a \<Longrightarrow> 0 < b \<Longrightarrow> 0 \<le> go_rem a b"
  by (cases "a = 0") (simp_all add: go_rem_def)

lemma Seconds_nonneg:
  assumes rc: "roundingContract rnd" and d: "0 \<le> d"
  shows "0 \<le> Seconds rnd d"
proof -
  have q: "0 \<le> rnd (of_int (go_quot d 1000000000))"
    using go_quot_nonneg [OF d, of 1000000000] by (intro rnd_nonneg [OF rc]) simp
  have "0 \<le> rnd (of_int (go_rem d 1000000000))"
    using go_rem_nonneg [OF d, of 1000000000] by (intro rnd_nonneg [OF rc]) simp
  then have "0 \<le> rnd (of_int (go_rem d 1000000000)) / 1000000000" by simp
  then have r: "0 \<le> rnd (rnd (of_int (go_rem d 1000000000)) / 1000000000)"
    by (rule rnd_nonneg [OF rc])
  show ?thesis unfolding Seconds_def Let_def using q r by (intro rnd_nonneg [OF rc]) simp
qed

lemma refill_inv:
  assumes rc: "roundingContract rnd" and inv: "bucketInv rnd tb" and t: "lastRefill tb \<le> now"
  shows "bucketInv rnd (refill rnd now tb) \<and> lastRefill (refill rnd now tb) = now"
proof -
  have e: "0 \<le> Seconds rnd (now - lastRefill tb)" using t by (intro Seconds_nonneg [OF rc]) simp
  have i: "0 \<le> tokens tb" "tokens tb \<le> maxTokens tb" "0 \<le> refillRate tb"
    "rnd (maxTokens tb) = maxTokens tb" using inv by (simp_all add: bucketInv_def)
  have "0 \<le> rnd (Seconds rnd (now - lastRefill tb) * refillRate tb)"
    using e i(3) by (intro rnd_nonneg [OF rc]) simp
  then have "0 \<le> tokens tb + rnd (Seconds rnd (now - lastRefill tb) * refillRate tb)"
    using i(1) by simp
  then have n: "0 \<le> rnd (tokens tb + rnd (Seconds rnd (now - lastRefill tb) * refillRate tb))"
    by (rule rnd_nonneg [OF rc])
  have m: "0 \<le> maxTokens tb" using i by simp
  show ?thesis using n m i by (simp add: refill_def Let_def bucketInv_def)
qed

lemma Allow_inv:
  assumes rc: "roundingContract rnd" and inv: "bucketInv rnd tb" and t: "lastRefill tb \<le> now"
  shows "bucketInv rnd (snd (TokenBucket_Allow rnd now tb))
       \<and> lastRefill (snd (TokenBucket_Allow rnd now tb)) = now"
proof -
  let ?tb1 = "refill rnd now tb"
  from refill_inv [OF rc inv t] have i: "0 \<le> tokens ?tb1" "tokens ?tb1 \<le> maxTokens ?tb1"
    "0 \<le> refillRate ?tb1" "rnd (maxTokens ?tb1) = maxTokens ?tb1" "lastRefill ?tb1 = now"
    by (simp_all add: bucketInv_def)
  show ?thesis
  proof (cases "1 \<le> tokens ?tb1")
    case True
    then have "0 \<le> rnd (tokens ?tb1 - 1)" by (intro rnd_nonneg [OF rc]) simp
    moreover have "rnd (tokens ?tb1 - 1) \<le> rnd (maxTokens ?tb1)"
      using i(2) by (intro rnd_mono [OF rc]) simp
    ultimately show ?thesis using True i by (simp add: TokenBucket_Allow_def Let_def bucketInv_def)
  next
    case False
    then show ?thesis using i by (simp add: TokenBucket_Allow_def Let_def bucketInv_def)
  qed
qed

lemma Allow_seq_inv:
  assumes rc: "roundingContract rnd"
  shows "bucketInv rnd tb \<Longrightarrow> sorted (lastRefill tb # nows) \<Longrightarrow>
         list_all (\<lambda>r. withinCapacity (snd r)) (Allow_seq rnd nows tb)"
proof (induction nows arbitrary: tb)
  case Nil
  then show ?case by simp
next
  case (Cons now nows)
  obtain ok tb1 where a: "TokenBucket_Allow rnd now tb = (ok, tb1)" by (cases "TokenBucket_Allow rnd now tb")
  have t: "lastRefill tb \<le> now" using Cons.prems(2) by simp
  from Allow_inv [OF rc Cons.prems(1) t] a have i1: "bucketInv rnd tb1" and l1: "lastRefill tb1 = now" by simp_all
  have "sorted (lastRefill tb1 # nows)" using Cons.prems(2) l1 by simp
  from Cons.IH [OF i1 this] have "list_all (\<lambda>r. withinCapacity (snd r)) (Allow_seq rnd nows tb1)" .
  moreover have "withinCapacity tb1" using i1 by (simp add: bucketInv_def withinCapacity_def)
  ultimately show ?case using a by simp
qed

lemma New_bucketInv:
  assumes rc: "roundingContract rnd" and "0 \<le> rps" "0 \<le> burst"
  shows "bucketInv rnd (NewTokenBucket rnd now rps burst)"
proof -
  have "0 \<le> rnd (of_int burst)" "0 \<le> rnd (of_int rps)"
    using assms(2,3) by (auto intro!: rnd_nonneg [OF rc])
  moreover have "rnd (rnd (of_int burst)) = rnd (of_int burst)"
    using rc by (simp add: roundingContract_def)
  ultimately show ?thesis by (simp add: NewTokenBucket_def bucketInv_def)
qed

text \<open>
  Claim C7, as amended.  For every token bucket created with limits that are not negative
  (\<open>rps \<ge> 0\<close>, \<open>burst \<ge> 0\<close>) and every sequence of \<open>Allow\<close> calls, each refilling
  lazily and then consuming one token when at least one is available, the token level
  satisfies \<open>0 \<le> tokens \<le> capacity\<close> when the bucket is created and after each call.  The
  clock readings are those of Go's monotonic clock, so they do not decrease.
\<close>

theorem C7_token_level_within_capacity:
  assumes rc: "roundingContract rnd" and rps: "0 \<le> rps" and burst: "0 \<le> burst"
    and clock: "sorted (created # nows)"
  shows "withinCapacity (NewTokenBucket rnd created rps burst)
       \<and> list_all (\<lambda>r. withinCapacity (snd r))
            (Allow_seq rnd nows (NewTokenBucket rnd created rps burst))"
proof -
  have i: "bucketInv rnd (NewTokenBucket rnd created rps burst)"
    by (rule New_bucketInv [OF rc rps burst])
  have "lastRefill (NewTokenBucket rnd created rps burst) = created" by (simp add: NewTokenBucket_def)
  with clock have "sorted (lastRefill (NewTokenBucket rnd created rps burst) # nows)" by simp
  from Allow_seq_inv [OF rc i this] i show ?thesis by (simp add: bucketInv_def withinCapacity_def)
qed

lemma exact_contract: "roundingContract (\<lambda>x. x)"
  by (simp add: roundingContract_def mono_def)

theorem C7_token_level_within_capacity_witness:
  "roundingContract (\<lambda>x. x)
   \<and> list_all (\<lambda>r. withinCapacity (snd r))
        (Allow_seq (\<lambda>x. x) [0, 250000000, 1000000000] (NewTokenBucket (\<lambda>x. x) 0 10 10))"
  using C7_token_level_within_capacity [OF exact_contract, of 10 10 0 "[0, 250000000, 1000000000]"] exact_contract by simp

text \<open>
  The claim as stated fails for a bucket with a negative burst, which nothing in the
  configuration path excludes: \<open>NewTokenBucket(10, -5)\<close> starts at \<open>-5\<close> tokens with
  capacity \<open>-5\<close>, and an \<open>Allow\<close> one second later leaves it there.
\<close>

theorem C7_negative_burst_counterexample:
  "tokens (snd (TokenBucket_Allow (\<lambda>x. x) 1000000000 (NewTokenBucket (\<lambda>x. x) 0 10 (- 5)))) = - 5
   \<and> \<not> withinCapacity (snd (TokenBucket_Allow (\<lambda>x. x) 1000000000 (NewTokenBucket (\<lambda>x. x) 0 10 (- 5))))"
  by (simp add: TokenBucket_Allow_def refill_def NewTokenBucket_def Seconds_def go_quot_def go_rem_def
        Let_def withinCapacity_def)


subsection \<open>The order of the tiers\<close>

lemma AllowWithLimits_fields:
  "defaultRPS (fst (snd (AllowWithLimits rnd key rps burst (rl, env)))) = defaultRPS rl"
  "defaultBurst (fst (snd (AllowWithLimits rnd key rps burst (rl, env)))) = defaultBurst rl"
  "queries (fst (snd (AllowWithLimits rnd key rps burst (rl, env)))) = queries rl @ [key]"
  by (simp_all add: AllowWithLimits_def Let_def time_Now_def split: option.splits prod.splits)

lemma AllowWithLimits_cases:
  obtains ok rl1 env1 where "AllowWithLimits rnd key rps burst (rl, env) = (ok, rl1, env1)"
    "defaultRPS rl1 = defaultRPS rl" "defaultBurst rl1 = defaultBurst rl"
    "queries rl1 = queries rl @ [key]"
proof -
  obtain ok rl1 env1 where a: "AllowWithLimits rnd key rps burst (rl, env) = (ok, rl1, env1)"
    by (cases "AllowWithLimits rnd key rps burst (rl, env)") auto
  with AllowWithLimits_fields [of rnd key rps burst rl env] that show thesis by simp
qed

lemma tiers_same_limiter:
  "defaultRPS rl1 = defaultRPS (rateLimiter p) \<Longrightarrow> defaultBurst rl1 = defaultBurst (rateLimiter p) \<Longrightarrow>
   apikeyTiers (p\<lparr>rateLimiter := rl1\<rparr>) apiKey = apikeyTiers p apiKey
   \<and> ipTiers (p\<lparr>rateLimiter := rl1\<rparr>) ip = ipTiers p ip"
  by (simp add: apikeyTiers_def ipTiers_def apikeyTier_def ipTier_def)

lemma ip_refines:
  "checkRateLimits_ip rnd ip routeName (w, p, env) = spec_evalTiers rnd routeName (ipTiers p ip) (w, p, env)"
proof (cases "rlcPerIP (cfgRateLimitConfig (config p)) \<and> ip \<noteq> []")
  case False
  then have c: "(rlcPerIP (cfgRateLimitConfig (config p)) \<and> ip \<noteq> []) = False" by blast
  show ?thesis by (simp add: checkRateLimits_ip_def ipTiers_def c del: de_Morgan_conj)
next
  case True
  then have t: "ipTiers p ip = [ipTier p ip]" by (simp add: ipTiers_def)
  obtain ok rl1 env1 where a: "AllowWithLimits rnd (''ip:'' @ ip) (defaultRPS (rateLimiter p))
        (defaultBurst (rateLimiter p)) (rateLimiter p, env) = (ok, rl1, env1)"
    by (rule AllowWithLimits_cases)
  have "checkRateLimits_ip rnd ip routeName (w, p, env) =
      (if \<not> ok then reject429 routeName ''ip'' (w, p\<lparr>rateLimiter := rl1\<rparr>, env1)
       else (True, w, p\<lparr>rateLimiter := rl1\<rparr>, env1))"
    using True a by (simp add: checkRateLimits_ip_def RateLimiter_Allow_def)
  moreover have "spec_evalTiers rnd routeName [ipTier p ip] (w, p, env) =
      (if ok then (True, w, p\<lparr>rateLimiter := rl1\<rparr>, env1)
       else reject429 routeName ''ip'' (w, p\<lparr>rateLimiter := rl1\<rparr>, env1))"
    using a by (simp add: ipTier_def)
  ultimately show ?thesis unfolding t by simp
qed

lemma apikey_refines:
  "checkRateLimits_apikey rnd ip apiKey routeName (w, p, env) =
   spec_evalTiers rnd routeName (apikeyTiers p apiKey @ ipTiers p ip) (w, p, env)"
proof (cases "rlcPerAPIKey (cfgRateLimitConfig (config p)) \<and> apiKey \<noteq> []")
  case False
  then have c: "(rlcPerAPIKey (cfgRateLimitConfig (config p)) \<and> apiKey \<noteq> []) = False" by blast
  have "apikeyTiers p apiKey = []" by (simp add: apikeyTiers_def c del: de_Morgan_conj)
  moreover have "checkRateLimits_apikey rnd ip apiKey routeName (w, p, env)
      = checkRateLimits_ip rnd ip routeName (w, p, env)"
    by (simp add: checkRateLimits_apikey_def c del: de_Morgan_conj)
  ultimately show ?thesis by (simp add: ip_refines)
next
  case True
  then have t: "apikeyTiers p apiKey = [apikeyTier p apiKey]" by (simp add: apikeyTiers_def)
  obtain ok rl1 env1 where a: "AllowWithLimits rnd (''apikey:'' @ apiKey) (defaultRPS (rateLimiter p))
        (defaultBurst (rateLimiter p)) (rateLimiter p, env) = (ok, rl1, env1)"
    and d: "defaultRPS rl1 = defaultRPS (rateLimiter p)" "defaultBurst rl1 = defaultBurst (rateLimiter p)"
    by (rule AllowWithLimits_cases)
  let ?p1 = "p\<lparr>rateLimiter := rl1\<rparr>"
  have same: "ipTiers ?p1 ip = ipTiers p ip" using tiers_same_limiter [OF d] by simp
  have "checkRateLimits_apikey rnd ip apiKey routeName (w, p, env) =
      (if \<not> ok then reject429 routeName ''apikey'' (w, ?p1, env1)
       else checkRateLimits_ip rnd ip routeName (w, ?p1, env1))"
    using True a by (simp add: checkRateLimits_apikey_def RateLimiter_Allow_def)
  moreover have "spec_evalTiers rnd routeName (apikeyTier p apiKey # ipTiers p ip) (w, p, env) =
      (if ok then spec_evalTiers rnd routeName (ipTiers p ip) (w, ?p1, env1)
       else reject429 routeName ''apikey'' (w, ?p1, env1))"
    using a by (simp add: apikeyTier_def)
  ultimately show ?thesis unfolding t using same by (simp add: ip_refines)
qed

lemma checkRateLimits_refines:
  "checkRateLimits rnd rt ip apiKey routeName (w, p, env) =
   spec_evalTiers rnd routeName (spec_tiers p rt ip apiKey routeName) (w, p, env)"
proof (cases "case RateLimit rt of None \<Rightarrow> False | Some l \<Rightarrow> Enabled l")
  case False
  then have "routeTiers rt routeName = []" by (auto simp: routeTiers_def split: option.splits)
  moreover have "checkRateLimits rnd rt ip apiKey routeName (w, p, env)
      = checkRateLimits_apikey rnd ip apiKey routeName (w, p, env)"
    using False by (auto simp: checkRateLimits_def split: option.splits)
  ultimately show ?thesis by (simp add: spec_tiers_def apikey_refines)
next
  case True
  then obtain l where l: "RateLimit rt = Some l" "Enabled l" by (auto split: option.splits)
  then have t: "routeTiers rt routeName = [routeTier routeName l]" by (simp add: routeTiers_def)
  obtain ok rl1 env1 where a: "AllowWithLimits rnd (''route:'' @ routeName) (RequestsPerSecond l)
        (BurstSize l) (rateLimiter p, env) = (ok, rl1, env1)"
    and d: "defaultRPS rl1 = defaultRPS (rateLimiter p)" "defaultBurst rl1 = defaultBurst (rateLimiter p)"
    by (rule AllowWithLimits_cases)
  let ?p1 = "p\<lparr>rateLimiter := rl1\<rparr>"
  let ?rest = "apikeyTiers p apiKey @ ipTiers p ip"
  have same: "apikeyTiers ?p1 apiKey @ ipTiers ?p1 ip = ?rest" using tiers_same_limiter [OF d] by simp
  have "checkRateLimits rnd rt ip apiKey routeName (w, p, env) =
      (if \<not> ok then reject429 routeName ''route'' (w, ?p1, env1)
       else checkRateLimits_apikey rnd ip apiKey routeName (w, ?p1, env1))"
    using l a by (simp add: checkRateLimits_def)
  moreover have "spec_evalTiers rnd routeName (routeTier routeName l # ?rest) (w, p, env) =
      (if ok then spec_evalTiers rnd routeName ?rest (w, ?p1, env1)
       else reject429 routeName ''route'' (w, ?p1, env1))"
    using a by (simp add: routeTier_def)
  ultimately show ?thesis unfolding spec_tiers_def t using same by (simp add: apikey_refines)
qed

lemma spec_evalTiers_trace:
  "\<exists>j\<le>length ts.
     queries (rateLimiter (fst (snd (snd (spec_evalTiers rnd rn ts (w, p, env))))))
        = queries (rateLimiter p) @ map tierKey (take j ts)
     \<and> (fst (spec_evalTiers rnd rn ts (w, p, env)) \<longrightarrow>
           j = length ts \<and> fst (snd (spec_evalTiers rnd rn ts (w, p, env))) = w
           \<and> metrics (fst (snd (snd (spec_evalTiers rnd rn ts (w, p, env))))) = metrics p)
     \<and> (\<not> fst (spec_evalTiers rnd rn ts (w, p, env)) \<longrightarrow>
           0 < j
           \<and> fst (snd (spec_evalTiers rnd rn ts (w, p, env)))
               = http_Error ''Too Many Requests'' 429 (Header_Set ''Retry-After'' ''1'' w)
           \<and> metrics (fst (snd (snd (spec_evalTiers rnd rn ts (w, p, env)))))
               = RecordRateLimitHit rn (tierLabel (ts ! (j - 1))) (metrics p))"
proof (induction ts arbitrary: p env)
  case Nil
  then show ?case by simp
next
  case (Cons t ts)
  obtain ok rl1 env1 where a: "AllowWithLimits rnd (tierKey t) (tierRPS t) (tierBurst t) (rateLimiter p, env)
       = (ok, rl1, env1)" and q: "queries rl1 = queries (rateLimiter p) @ [tierKey t]"
    by (rule AllowWithLimits_cases)
  show ?case
  proof (cases ok)
    case False
    have "spec_evalTiers rnd rn (t # ts) (w, p, env)
        = reject429 rn (tierLabel t) (w, p\<lparr>rateLimiter := rl1\<rparr>, env1)"
      using a False by simp
    then show ?thesis using q
      by (intro exI [of _ 1]) (simp add: reject429_def)
  next
    case True
    let ?p1 = "p\<lparr>rateLimiter := rl1\<rparr>"
    have e: "spec_evalTiers rnd rn (t # ts) (w, p, env) = spec_evalTiers rnd rn ts (w, ?p1, env1)"
      using a True by simp
    from Cons.IH [of ?p1 env1] obtain j where j: "j \<le> length ts"
      "queries (rateLimiter (fst (snd (snd (spec_evalTiers rnd rn ts (w, ?p1, env1))))))
        = queries (rateLimiter ?p1) @ map tierKey (take j ts)"
      "fst (spec_evalTiers rnd rn ts (w, ?p1, env1)) \<longrightarrow>
           j = length ts \<and> fst (snd (spec_evalTiers rnd rn ts (w, ?p1, env1))) = w
           \<and> metrics (fst (snd (snd (spec_evalTiers rnd rn ts (w, ?p1, env1))))) = metrics ?p1"
      "\<not> fst (spec_evalTiers rnd rn ts (w, ?p1, env1)) \<longrightarrow>
           0 < j
           \<and> fst (snd (spec_evalTiers rnd rn ts (w, ?p1, env1)))
               = http_Error ''Too Many Requests'' 429 (Header_Set ''Retry-After'' ''1'' w)
           \<and> metrics (fst (snd (snd (spec_evalTiers rnd rn ts (w, ?p1, env1)))))
               = RecordRateLimitHit rn (tierLabel (ts ! (j - 1))) (metrics ?p1)"
      by blast
    show ?thesis unfolding e
      using j q by (intro exI [of _ "Suc j"]) (auto simp: nth_Cons')
  qed
qed



subsection \<open>The tiers in \<open>ServeHTTP\<close>\<close>

lemma spec_tiers_frame:
  "spec_tiers (p\<lparr>router := r1, metrics := m1\<rparr>) rt ip apiKey routeName = spec_tiers p rt ip apiKey routeName"
  by (simp add: spec_tiers_def apikeyTiers_def ipTiers_def apikeyTier_def ipTier_def)

lemma spec_evalTiers_upstreams:
  "upstreams (fst (snd (snd (spec_evalTiers rnd rn ts (w, p, env))))) = upstreams p"
proof (induction ts arbitrary: p env)
  case Nil
  then show ?case by simp
next
  case (Cons t ts)
  obtain ok rl1 env1 where a: "AllowWithLimits rnd (tierKey t) (tierRPS t) (tierBurst t) (rateLimiter p, env)
       = (ok, rl1, env1)"
    by (cases "AllowWithLimits rnd (tierKey t) (tierRPS t) (tierBurst t) (rateLimiter p, env)") auto
  show ?case using a Cons.IH [of "p\<lparr>rateLimiter := rl1\<rparr>" env1]
    by (simp add: reject429_def)
qed

lemma ServeHTTP_upstream_rateLimiter:
  "ServeHTTP_upstream draw itoa forward r rt routeName apiKeyName (w, p, env) = Some (Return (w2, p2, env2))
   \<Longrightarrow> rateLimiter p2 = rateLimiter p"
  by (auto simp add: ServeHTTP_upstream_def done_inflight_def Let_def
        split: option.splits outcome.splits prod.splits)

lemma extractAPIKey_fst: "fst (extractAPIKey p r) = presentedKey r"
  by (simp add: extractAPIKey_def Let_def split: option.splits)

lemma extractAPIKey_frame:
  "extractAPIKey (p\<lparr>router := r1, metrics := m1\<rparr>) r = extractAPIKey p r"
  by (simp add: extractAPIKey_def Let_def)

lemma ServeHTTP_enabled:
  assumes en: "rlcEnabled (cfgRateLimitConfig (config p))"
    and m: "Match lw (request r) (router p) = (Some a, router1)"
    and rt: "rt = objs router1 a"
    and rn: "routeName = (if Name rt = [] then Pattern rt else Name rt)"
    and p1: "p1 = p\<lparr>router := router1, metrics := InFlightAdd routeName 1 (metrics p)\<rparr>"
  shows "ServeHTTP lw rnd draw itoa forward r (w, p, env) =
     (case spec_evalTiers rnd routeName (spec_tiers p rt (clientIP r) (presentedKey r) routeName)
             (w, p1, snd (time_Now env)) of
        (ok, st1) \<Rightarrow>
          if \<not> ok then done_inflight routeName st1
          else ServeHTTP_upstream draw itoa forward r rt routeName (snd (extractAPIKey p r)) st1)"
proof -
  obtain k n where e: "extractAPIKey p r = (k, n)" by (cases "extractAPIKey p r")
  then have k: "k = presentedKey r" using extractAPIKey_fst [of p r] by simp
  obtain n0 e0 where tn: "time_Now env = (n0, e0)" by (cases "time_Now env")
  have sn: "snd (extractAPIKey p r) = n" using e by simp
  show ?thesis unfolding p1 rn rt sn
    using m e k en tn
    by (simp add: ServeHTTP_def Let_def checkRateLimits_refines spec_tiers_frame extractAPIKey_frame)
qed


text \<open>
  Claim C5.  Let global rate limiting be enabled and let the request match a route.  The
  limits \<open>ServeHTTP\<close> evaluates are those of the tiers that apply, in the fixed order
  route (key \<open>route:<name>\<close>, when the route carries an enabled limit), API key (key
  \<open>apikey:<key>\<close>, when per-key limiting is configured and a key is present), client
  address (key \<open>ip:<addr>\<close>, when per-IP limiting is configured and the address is not
  empty): the keys the registry is queried with during the call are those of a prefix of
  that list, in order.  When every tier admits, the prefix is the whole list, the response
  is untouched and the request goes on to the upstream.  At the first tier that rejects,
  the prefix ends: \<open>ServeHTTP\<close> returns at once with 429 and \<open>Retry-After: 1\<close>, the
  rejection is counted under that tier's label, no later tier is evaluated and no balancer
  is consulted.
\<close>

theorem C5_rate_limit_tiers_in_order:
  assumes en: "rlcEnabled (cfgRateLimitConfig (config p))"
    and m: "Match lw (request r) (router p) = (Some a, router1)"
    and rt: "rt = objs router1 a"
    and rn: "routeName = (if Name rt = [] then Pattern rt else Name rt)"
    and T: "T = spec_tiers p rt (clientIP r) (presentedKey r) routeName"
  shows "\<exists>j ok w1 p1 env1.
      j \<le> length T
    \<and> spec_evalTiers rnd routeName T
         (w, p\<lparr>router := router1, metrics := InFlightAdd routeName 1 (metrics p)\<rparr>, snd (time_Now env))
        = (ok, w1, p1, env1)
    \<and> queries (rateLimiter p1) = queries (rateLimiter p) @ map tierKey (take j T)
    \<and> (\<forall>w2 p2 env2. ServeHTTP lw rnd draw itoa forward r (w, p, env) = Some (Return (w2, p2, env2))
          \<longrightarrow> queries (rateLimiter p2) = queries (rateLimiter p) @ map tierKey (take j T))
    \<and> (ok \<longrightarrow> j = length T \<and> w1 = w
          \<and> ServeHTTP lw rnd draw itoa forward r (w, p, env)
              = ServeHTTP_upstream draw itoa forward r rt routeName (snd (extractAPIKey p r)) (w1, p1, env1))
    \<and> (\<not> ok \<longrightarrow> 0 < j
          \<and> ServeHTTP lw rnd draw itoa forward r (w, p, env)
              = Some (Return (w1, p1\<lparr>metrics := InFlightAdd routeName (- 1) (metrics p1)\<rparr>, env1))
          \<and> w1 = http_Error ''Too Many Requests'' 429 (Header_Set ''Retry-After'' ''1'' w)
          \<and> rwHeader w1 ''Retry-After'' = Some ''1''
          \<and> (rwStatus w = None \<longrightarrow> rwStatus w1 = Some 429)
          \<and> rateLimitHits (metrics p1)
              = counterAdd (rateLimitHits (metrics p)) (routeName @ ''_'' @ tierLabel (T ! (j - 1))) 1
          \<and> upstreams p1 = upstreams p)"
proof -
  let ?p0 = "p\<lparr>router := router1, metrics := InFlightAdd routeName 1 (metrics p)\<rparr>"
  let ?e0 = "snd (time_Now env)"
  let ?res = "spec_evalTiers rnd routeName T (w, ?p0, ?e0)"
  obtain ok w1 p1 env1 where res: "?res = (ok, w1, p1, env1)" by (cases ?res) auto
  have S: "ServeHTTP lw rnd draw itoa forward r (w, p, env) =
     (if \<not> ok then done_inflight routeName (w1, p1, env1)
      else ServeHTTP_upstream draw itoa forward r rt routeName (snd (extractAPIKey p r)) (w1, p1, env1))"
    using ServeHTTP_enabled [OF en m rt rn refl, of rnd draw itoa forward w env] res
    unfolding T by simp
  from spec_evalTiers_trace [of T rnd routeName w ?p0 ?e0] res
  obtain j where j: "j \<le> length T"
     "queries (rateLimiter p1) = queries (rateLimiter p) @ map tierKey (take j T)"
     "ok \<longrightarrow> j = length T \<and> w1 = w \<and> metrics p1 = metrics ?p0"
     "\<not> ok \<longrightarrow> 0 < j \<and> w1 = http_Error ''Too Many Requests'' 429 (Header_Set ''Retry-After'' ''1'' w)
           \<and> metrics p1 = RecordRateLimitHit routeName (tierLabel (T ! (j - 1))) (metrics ?p0)"
    by auto
  have up: "upstreams p1 = upstreams p"
    using spec_evalTiers_upstreams [of rnd routeName T w ?p0 ?e0] res by simp
  have h: "rwHeader (http_Error ''Too Many Requests'' 429 (Header_Set ''Retry-After'' ''1'' w)) ''Retry-After''
      = Some ''1''"
    by (simp add: http_Error_def Header_Set_def)
  have st: "rwStatus w = None \<longrightarrow>
      rwStatus (http_Error ''Too Many Requests'' 429 (Header_Set ''Retry-After'' ''1'' w)) = Some 429"
    by (simp add: http_Error_def Header_Set_def)
  have q: "\<forall>w2 p2 env2. ServeHTTP lw rnd draw itoa forward r (w, p, env) = Some (Return (w2, p2, env2))
          \<longrightarrow> queries (rateLimiter p2) = queries (rateLimiter p) @ map tierKey (take j T)"
  proof (intro allI impI)
    fix w2 p2 env2
    assume a: "ServeHTTP lw rnd draw itoa forward r (w, p, env) = Some (Return (w2, p2, env2))"
    show "queries (rateLimiter p2) = queries (rateLimiter p) @ map tierKey (take j T)"
    proof (cases ok)
      case True
      with a S have "ServeHTTP_upstream draw itoa forward r rt routeName (snd (extractAPIKey p r)) (w1, p1, env1)
          = Some (Return (w2, p2, env2))" by simp
      from ServeHTTP_upstream_rateLimiter [OF this] j(2) show ?thesis by simp
    next
      case False
      with a S have "p2 = p1\<lparr>metrics := InFlightAdd routeName (- 1) (metrics p1)\<rparr>"
        by (simp add: done_inflight_def)
      with j(2) show ?thesis by simp
    qed
  qed
  have okc: "ok \<longrightarrow> j = length T \<and> w1 = w
          \<and> ServeHTTP lw rnd draw itoa forward r (w, p, env)
              = ServeHTTP_upstream draw itoa forward r rt routeName (snd (extractAPIKey p r)) (w1, p1, env1)"
    using j(3) S by simp
  have rej: "\<not> ok \<longrightarrow> 0 < j
          \<and> ServeHTTP lw rnd draw itoa forward r (w, p, env)
              = Some (Return (w1, p1\<lparr>metrics := InFlightAdd routeName (- 1) (metrics p1)\<rparr>, env1))
          \<and> w1 = http_Error ''Too Many Requests'' 429 (Header_Set ''Retry-After'' ''1'' w)
          \<and> rwHeader w1 ''Retry-After'' = Some ''1''
          \<and> (rwStatus w = None \<longrightarrow> rwStatus w1 = Some 429)
          \<and> rateLimitHits (metrics p1)
              = counterAdd (rateLimitHits (metrics p)) (routeName @ ''_'' @ tierLabel (T ! (j - 1))) 1
          \<and> upstreams p1 = upstreams p"
    using j(4) S h st up by (auto simp add: done_inflight_def RecordRateLimitHit_def InFlightAdd_def)
  show ?thesis
    by (intro exI [of _ j] exI [of _ ok] exI [of _ w1] exI [of _ p1] exI [of _ env1] conjI)
       (rule j(1) res j(2) q okc rej)+
qed


text \<open>With global rate limiting disabled no tier is evaluated.\<close>

lemma ServeHTTP_disabled:
  assumes en: "\<not> rlcEnabled (cfgRateLimitConfig (config p))"
    and m: "Match lw (request r) (router p) = (Some a, router1)"
    and rt: "rt = objs router1 a"
    and rn: "routeName = (if Name rt = [] then Pattern rt else Name rt)"
  shows "ServeHTTP lw rnd draw itoa forward r (w, p, env) =
     ServeHTTP_upstream draw itoa forward r rt routeName (snd (extractAPIKey p r))
       (w, p\<lparr>router := router1, metrics := InFlightAdd routeName 1 (metrics p)\<rparr>, snd (time_Now env))"
proof -
  obtain k n where e: "extractAPIKey p r = (k, n)" by (cases "extractAPIKey p r")
  obtain n0 e0 where tn: "time_Now env = (n0, e0)" by (cases "time_Now env")
  have sn: "snd (extractAPIKey p r) = n" using e by simp
  show ?thesis unfolding rn rt sn
    using m e en tn
    by (simp add: ServeHTTP_def Let_def extractAPIKey_frame)
qed

lemma exampleProxy_built:
  "proxy_New asciiLower asciiUpper sortByPriority Some (\<lambda>x. x) exampleConfig frozenClock
     = Some (exampleProxy, frozenClock)"
  by (simp add: proxy_New_def exampleProxy_def Let_def) (simp add: exampleConfig_def)

lemma exampleRouter_routes:
  "routes (router exampleProxy) =
     [\<lparr>route = 0, segments = [\<lparr>seg_value = ''api'', isParam = False, isWild = False\<rparr>,
         \<lparr>seg_value = ''**'', isParam = False, isWild = True\<rparr>], isWildcard = True, priority = 18\<rparr>]"
  "nextAddr (router exampleProxy) = 1"
  by (simp_all add: exampleProxy_def New_def exampleConfig_def mkCfg_def emptyRouter_def Let_def
       sortByPriority_def calculatePriority_def hasWildcard_def parseSegments_def Trim_def
       parsePart_def HasPrefix_def HasSuffix_def asciiLower_def lowerChar_def)

lemma exampleRouter_objs:
  "Name (objs (router exampleProxy) 0) = ''r''"
  "Host (objs (router exampleProxy) 0) = []"
  "Methods (objs (router exampleProxy) 0) = {''*''}"
  "RateLimit (objs (router exampleProxy) 0) = Some \<lparr>RequestsPerSecond = 1, BurstSize = 1, Enabled = True\<rparr>"
  by (simp_all add: exampleProxy_def New_def exampleConfig_def mkCfg_def emptyRouter_def Let_def
       zeroRoute_def mkMethods_def asciiLower_def)

lemma Match_keyedRequest:
  "Match asciiLower (request keyedRequest) (router exampleProxy)
     = (Some 1, (router exampleProxy)\<lparr>objs := (objs (router exampleProxy))
                   (1 := (objs (router exampleProxy) 0)\<lparr>PathParams := [''**'' \<mapsto> ''users'']\<rparr>),
                 nextAddr := 2\<rparr>)"
  by (simp add: Match_def exampleRouter_routes exampleRouter_objs hostMatches_def
        methodMatches_def keyedRequest_def matchPath_def pathParts_def Trim_def
        asciiLower_def lowerChar_def requestHost_def Index_def Let_def)

lemma example_tiers:
  "RateLimit rt = Some \<lparr>RequestsPerSecond = 1, BurstSize = 1, Enabled = True\<rparr> \<Longrightarrow>
   spec_tiers exampleProxy rt ''10.0.0.1'' ''k'' ''r''
     = [\<lparr>tierKey = ''route:r'', tierRPS = 1, tierBurst = 1, tierLabel = ''route''\<rparr>,
        \<lparr>tierKey = ''apikey:k'', tierRPS = 5, tierBurst = 0, tierLabel = ''apikey''\<rparr>,
        \<lparr>tierKey = ''ip:10.0.0.1'', tierRPS = 5, tierBurst = 0, tierLabel = ''ip''\<rparr>]"
  by (simp add: spec_tiers_def routeTiers_def apikeyTiers_def ipTiers_def routeTier_def apikeyTier_def
        ipTier_def exampleProxy_def exampleConfig_def NewRateLimiter_def)

lemma example_eval:
  assumes "rateLimiter p = NewRateLimiter 5 0" "rateLimitHits (metrics p) = Map.empty"
  shows "fst (spec_evalTiers (\<lambda>x. x) ''r''
     [\<lparr>tierKey = ''route:r'', tierRPS = 1, tierBurst = 1, tierLabel = ''route''\<rparr>,
        \<lparr>tierKey = ''apikey:k'', tierRPS = 5, tierBurst = 0, tierLabel = ''apikey''\<rparr>,
        \<lparr>tierKey = ''ip:10.0.0.1'', tierRPS = 5, tierBurst = 0, tierLabel = ''ip''\<rparr>]
     (w, p, snd (time_Now frozenClock))) = False"
   "queries (rateLimiter (fst (snd (snd (spec_evalTiers (\<lambda>x. x) ''r''
     [\<lparr>tierKey = ''route:r'', tierRPS = 1, tierBurst = 1, tierLabel = ''route''\<rparr>,
        \<lparr>tierKey = ''apikey:k'', tierRPS = 5, tierBurst = 0, tierLabel = ''apikey''\<rparr>,
        \<lparr>tierKey = ''ip:10.0.0.1'', tierRPS = 5, tierBurst = 0, tierLabel = ''ip''\<rparr>]
     (w, p, snd (time_Now frozenClock))))))) = [''route:r'', ''apikey:k'']"
   "rateLimitHits (metrics (fst (snd (snd (spec_evalTiers (\<lambda>x. x) ''r''
     [\<lparr>tierKey = ''route:r'', tierRPS = 1, tierBurst = 1, tierLabel = ''route''\<rparr>,
        \<lparr>tierKey = ''apikey:k'', tierRPS = 5, tierBurst = 0, tierLabel = ''apikey''\<rparr>,
        \<lparr>tierKey = ''ip:10.0.0.1'', tierRPS = 5, tierBurst = 0, tierLabel = ''ip''\<rparr>]
     (w, p, snd (time_Now frozenClock))))))) ''r_apikey'' = Some 1"
  using assms
  by (simp_all add: AllowWithLimits_def TokenBucket_Allow_def refill_def NewTokenBucket_def
        Seconds_def go_quot_def go_rem_def time_Now_def reject429_def Let_def
        NewRateLimiter_def frozenClock_def RecordRateLimitHit_def counterAdd_def)


text \<open>
  The request matches the route \<open>r\<close>.  The route tier admits, the API-key tier rejects
  (its bucket has a burst of 0), and the address tier is never queried: \<open>ServeHTTP\<close>
  answers 429 with \<open>Retry-After: 1\<close>.
\<close>

theorem C5_rate_limit_tiers_in_order_witness:
  "rlcEnabled (cfgRateLimitConfig (config exampleProxy))
   \<and> fst (Match asciiLower (request keyedRequest) (router exampleProxy)) = Some 1
   \<and> (\<exists>w p env.
         ServeHTTP asciiLower (\<lambda>x. x) (\<lambda>n. 0) (\<lambda>n. []) (\<lambda>w r rt t. ((502, True), w)) keyedRequest
             (newResponseWriter, exampleProxy, frozenClock) = Some (Return (w, p, env))
       \<and> rwStatus w = Some 429
       \<and> rwHeader w ''Retry-After'' = Some ''1''
       \<and> queries (rateLimiter p) = [''route:r'', ''apikey:k'']
       \<and> rateLimitHits (metrics p) ''r_apikey'' = Some 1)"
proof -
  let ?R1 = "(router exampleProxy)\<lparr>objs := (objs (router exampleProxy))
                   (1 := (objs (router exampleProxy) 0)\<lparr>PathParams := [''**'' \<mapsto> ''users'']\<rparr>),
                 nextAddr := 2\<rparr>"
  let ?rt = "objs ?R1 1"
  let ?Ts = "[\<lparr>tierKey = ''route:r'', tierRPS = 1, tierBurst = 1, tierLabel = ''route''\<rparr>,
        \<lparr>tierKey = ''apikey:k'', tierRPS = 5, tierBurst = 0, tierLabel = ''apikey''\<rparr>,
        \<lparr>tierKey = ''ip:10.0.0.1'', tierRPS = 5, tierBurst = 0, tierLabel = ''ip''\<rparr>]"
  let ?p0 = "exampleProxy\<lparr>router := ?R1, metrics := InFlightAdd ''r'' 1 (metrics exampleProxy)\<rparr>"
  have en: "rlcEnabled (cfgRateLimitConfig (config exampleProxy))"
    by (simp add: exampleProxy_def exampleConfig_def)
  have rn: "''r'' = (if Name ?rt = [] then Pattern ?rt else Name ?rt)"
    by (simp add: exampleRouter_objs)
  have T: "?Ts = spec_tiers exampleProxy ?rt (clientIP keyedRequest) (presentedKey keyedRequest) ''r''"
    using example_tiers [of ?rt] by (simp add: exampleRouter_objs keyedRequest_def)
  note inst = C5_rate_limit_tiers_in_order [OF en Match_keyedRequest refl rn T, of "\<lambda>x. x" newResponseWriter frozenClock
                    "\<lambda>n. 0" "\<lambda>n. []" "\<lambda>w r rt t. ((502, True), w)"]
  have s0: "rateLimiter ?p0 = NewRateLimiter 5 0" "rateLimitHits (metrics ?p0) = Map.empty"
    by (simp_all add: exampleProxy_def InFlightAdd_def emptyMetrics_def)
  note ev = example_eval [OF s0, of newResponseWriter]
  obtain ok w1 p1 env1 where
      e: "spec_evalTiers (\<lambda>x. x) ''r'' ?Ts (newResponseWriter, ?p0, snd (time_Now frozenClock)) = (ok, w1, p1, env1)"
    by (cases "spec_evalTiers (\<lambda>x. x) ''r'' ?Ts (newResponseWriter, ?p0, snd (time_Now frozenClock))") auto
  from ev e have nok: "\<not> ok" and q: "queries (rateLimiter p1) = [''route:r'', ''apikey:k'']"
    and h: "rateLimitHits (metrics p1) ''r_apikey'' = Some 1" by simp_all
  have n: "rwStatus newResponseWriter = None" by (simp add: newResponseWriter_def)
  have "ServeHTTP asciiLower (\<lambda>x. x) (\<lambda>n. 0) (\<lambda>n. []) (\<lambda>w r rt t. ((502, True), w)) keyedRequest
               (newResponseWriter, exampleProxy, frozenClock)
              = Some (Return (w1, p1\<lparr>metrics := InFlightAdd ''r'' (- 1) (metrics p1)\<rparr>, env1))
        \<and> rwStatus w1 = Some 429 \<and> rwHeader w1 ''Retry-After'' = Some ''1''"
    using inst nok n unfolding e by (elim exE conjE) simp
  then have
     S: "ServeHTTP asciiLower (\<lambda>x. x) (\<lambda>n. 0) (\<lambda>n. []) (\<lambda>w r rt t. ((502, True), w)) keyedRequest
               (newResponseWriter, exampleProxy, frozenClock)
              = Some (Return (w1, p1\<lparr>metrics := InFlightAdd ''r'' (- 1) (metrics p1)\<rparr>, env1))"
     and w1: "rwStatus w1 = Some 429" "rwHeader w1 ''Retry-After'' = Some ''1''" by simp_all
  have m: "fst (Match asciiLower (request keyedRequest) (router exampleProxy)) = Some 1"
    by (simp add: Match_keyedRequest)
  have q2: "queries (rateLimiter (p1\<lparr>metrics := InFlightAdd ''r'' (- 1) (metrics p1)\<rparr>)) = [''route:r'', ''apikey:k'']"
    using q by simp
  have h2: "rateLimitHits (metrics (p1\<lparr>metrics := InFlightAdd ''r'' (- 1) (metrics p1)\<rparr>)) ''r_apikey'' = Some 1"
    using h by (simp add: InFlightAdd_def)
  show ?thesis
    by (intro conjI exI) (rule en m S w1 q2 h2)+
qed


section \<open>Properties of the request path\<close>

subsection \<open>An upstream without a live target\<close>

text \<open>
  \<open>RoundRobin.Next\<close> returns \<open>nil\<close> only for an empty target list.  When no target is
  live it goes once round the list and returns \<open>targets[0]\<close>.
\<close>

lemma RoundRobin_loop_all_down:
  "list_all (\<lambda>t. \<not> Healthy t) (rr_targets rr) \<Longrightarrow> rr_targets rr \<noteq> [] \<Longrightarrow>
   RoundRobin_loop k rr = (Some 0, rr\<lparr>rr_current := rr_current rr + of_nat k\<rparr>)"
proof (induction k arbitrary: rr)
  case 0 then show ?case by simp
next
  case (Suc k)
  let ?n = "length (rr_targets rr)"
  have "unat (rr_current rr + 1) mod ?n < ?n" using Suc.prems by simp
  then have "\<not> Healthy (rr_targets rr ! (unat (rr_current rr + 1) mod ?n))"
    using Suc.prems(1) by (simp add: list_all_length)
  then show ?case using Suc.IH [of "rr\<lparr>rr_current := rr_current rr + 1\<rparr>"] Suc.prems
    by (simp add: Let_def algebra_simps)
qed

lemma RoundRobin_Next_all_down:
  "list_all (\<lambda>t. \<not> Healthy t) (rr_targets rr) \<Longrightarrow> rr_targets rr \<noteq> [] \<Longrightarrow>
   RoundRobin_Next rr = (Some 0, rr\<lparr>rr_current := rr_current rr + of_nat (length (rr_targets rr))\<rparr>)"
  by (simp add: RoundRobin_Next_def RoundRobin_loop_all_down)


lemma downTargets:
  "New_upstreams Some (cfgUpstreams downConfig) Map.empty
     = Some [''backend'' \<mapsto> LB_RoundRobin \<lparr>rr_targets =
         [\<lparr>URL = ''http://10.0.0.2:8080'', Weight = 1, Healthy = True, Connections = 0\<rparr>,
          \<lparr>URL = ''http://10.0.0.3:8080'', Weight = 1, Healthy = True, Connections = 0\<rparr>],
         rr_current = 0\<rparr>]"
  by (simp add: downConfig_def loadbalancer_New_def NewRoundRobin_def)

lemma downProxy_eq:
  "downProxy = Some \<lparr>router = downRouter,
      upstreams = (\<lambda>name. map_option (checkAll (\<lambda>_. False))
         ([''backend'' \<mapsto> LB_RoundRobin \<lparr>rr_targets =
         [\<lparr>URL = ''http://10.0.0.2:8080'', Weight = 1, Healthy = True, Connections = 0\<rparr>,
          \<lparr>URL = ''http://10.0.0.3:8080'', Weight = 1, Healthy = True, Connections = 0\<rparr>],
         rr_current = 0\<rparr>] name)),
      rateLimiter = NewRateLimiter 100 200, metrics = emptyMetrics, apiKeys = Map.empty,
      config = downConfig\<rparr>"
  unfolding downProxy_def proxy_New_def downRouter_def
  by (simp add: downTargets Let_def health_pass_def) (simp add: downConfig_def)

lemma checkAll_backend:
  "checkAll (\<lambda>_. False) (LB_RoundRobin \<lparr>rr_targets =
         [\<lparr>URL = ''http://10.0.0.2:8080'', Weight = 1, Healthy = True, Connections = 0\<rparr>,
          \<lparr>URL = ''http://10.0.0.3:8080'', Weight = 1, Healthy = True, Connections = 0\<rparr>],
         rr_current = 0\<rparr>)
   = LB_RoundRobin \<lparr>rr_targets =
         [\<lparr>URL = ''http://10.0.0.2:8080'', Weight = 1, Healthy = False, Connections = 0\<rparr>,
          \<lparr>URL = ''http://10.0.0.3:8080'', Weight = 1, Healthy = False, Connections = 0\<rparr>],
         rr_current = 0\<rparr>"
  by (simp add: checkAll_def RoundRobin_MarkHealthy_def upt_rec [of 0] upt_rec [of 1] upt_rec [of "Suc 0"])


lemma downRouter_routes:
  "routes downRouter =
     [\<lparr>route = 0, segments = [\<lparr>seg_value = ''api'', isParam = False, isWild = False\<rparr>,
         \<lparr>seg_value = ''**'', isParam = False, isWild = True\<rparr>], isWildcard = True, priority = 18\<rparr>]"
  "nextAddr downRouter = 1"
  by (simp_all add: downRouter_def New_def downConfig_def mkCfg_def emptyRouter_def Let_def
       sortByPriority_def calculatePriority_def hasWildcard_def parseSegments_def Trim_def
       parsePart_def HasPrefix_def HasSuffix_def asciiLower_def lowerChar_def)

lemma downRouter_objs:
  "Name (objs downRouter 0) = ''api''"
  "Upstream (objs downRouter 0) = ''backend''"
  "Host (objs downRouter 0) = []"
  "Methods (objs downRouter 0) = {''*''}"
  "RateLimit (objs downRouter 0) = None"
  by (simp_all add: downRouter_def New_def downConfig_def mkCfg_def emptyRouter_def Let_def
       zeroRoute_def mkMethods_def asciiLower_def)

lemma Match_apiRequest:
  "Match asciiLower (request apiRequest) downRouter
     = (Some 1, downRouter\<lparr>objs := (objs downRouter)(1 := (objs downRouter 0)\<lparr>PathParams := [''**'' \<mapsto> ''users'']\<rparr>),
                            nextAddr := 2\<rparr>)"
  by (simp add: Match_def downRouter_routes downRouter_objs hostMatches_def
        methodMatches_def apiRequest_def matchPath_def pathParts_def Trim_def
        asciiLower_def lowerChar_def requestHost_def Index_def Let_def)


lemma downProxy_state:
  "downProxy = Some \<lparr>router = downRouter,
      upstreams = [''backend'' \<mapsto> LB_RoundRobin \<lparr>rr_targets =
         [\<lparr>URL = ''http://10.0.0.2:8080'', Weight = 1, Healthy = False, Connections = 0\<rparr>,
          \<lparr>URL = ''http://10.0.0.3:8080'', Weight = 1, Healthy = False, Connections = 0\<rparr>],
         rr_current = 0\<rparr>],
      rateLimiter = NewRateLimiter 100 200, metrics = emptyMetrics, apiKeys = Map.empty,
      config = downConfig\<rparr>"
  by (simp add: downProxy_eq checkAll_backend fun_eq_iff)


lemma apiRequest_fields:
  "clientIP apiRequest = ''10.0.0.1''"
  "presentedKey apiRequest = []"
  "reqMethod (request apiRequest) = ''GET''"
  by (simp_all add: apiRequest_def)

lemma ServeHTTP_apiRequest:
  assumes "downProxy = Some p0"
  shows "(case ServeHTTP asciiLower (\<lambda>x. x) draw itoa refusedForward apiRequest
           (newResponseWriter, p0, frozenClock) of
      Some (Return (w, p, env)) \<Rightarrow>
          rateLimitHits (metrics p) = Map.empty
        \<and> rwStatus w = Some 502
        \<and> rwBody w = ''Bad Gateway'' @ [CHR 0x0A]
        \<and> errorsTotal (metrics p) ''api_proxy_error'' = Some 1
        \<and> errorsTotal (metrics p) ''api_no_healthy_upstream'' = None
    | _ \<Rightarrow> False)"
proof -
  have "p0 = the downProxy" by (simp only: assms option.sel)
  then have p0: "p0 = \<lparr>router = downRouter,
      upstreams = [''backend'' \<mapsto> LB_RoundRobin \<lparr>rr_targets =
         [\<lparr>URL = ''http://10.0.0.2:8080'', Weight = 1, Healthy = False, Connections = 0\<rparr>,
          \<lparr>URL = ''http://10.0.0.3:8080'', Weight = 1, Healthy = False, Connections = 0\<rparr>],
         rr_current = 0\<rparr>],
      rateLimiter = NewRateLimiter 100 200, metrics = emptyMetrics, apiKeys = Map.empty,
      config = downConfig\<rparr>" by (simp only: downProxy_state option.sel)
  show ?thesis unfolding p0
    by (simp add: ServeHTTP_def Match_apiRequest downRouter_objs Let_def extractAPIKey_def
     apiRequest_fields downConfig_def checkRateLimits_def checkRateLimits_apikey_def checkRateLimits_ip_def
     RateLimiter_Allow_def AllowWithLimits_def TokenBucket_Allow_def refill_def NewTokenBucket_def
        Seconds_def go_quot_def go_rem_def time_Now_def reject429_def NewRateLimiter_def frozenClock_def
     ServeHTTP_upstream_def RoundRobin_Next_def refusedForward_def done_inflight_def http_Error_def
     newResponseWriter_def RecordError_def RecordRequest_def InFlightAdd_def counterAdd_def emptyMetrics_def)
qed

text \<open>
  Claim C1.  The claim says that a request matching a route whose upstream has targets, none
  of them live, and admitted by rate limiting, is answered 503 with the error label
  \<open>no_healthy_upstream\<close>, not 502.  \<open>ServeHTTP\<close> answers 503 only when \<open>Next\<close> returns
  \<open>nil\<close>, and \<open>Next\<close> returns \<open>targets[0]\<close> here: on the proxy whose two targets a round of
  health checks has marked down, the request \<open>GET /api/users\<close> is admitted by the rate
  limiter and forwarded to the first target; the connection is refused, the response is
  502 \<open>Bad Gateway\<close>, the error counted is \<open>api_proxy_error\<close>, and
  \<open>api_no_healthy_upstream\<close> is never counted.
\<close>

theorem C1_all_targets_down_answers_502:
  "\<exists>p0 w p env.
      downProxy = Some p0
    \<and> map_option (\<lambda>lb. map Healthy (LoadBalancer_Targets lb)) (upstreams p0 ''backend'') = Some [False, False]
    \<and> ServeHTTP asciiLower (\<lambda>x. x) draw itoa refusedForward apiRequest (newResponseWriter, p0, frozenClock)
         = Some (Return (w, p, env))
    \<and> rateLimitHits (metrics p) = Map.empty
    \<and> rwStatus w = Some 502
    \<and> rwBody w = ''Bad Gateway'' @ [CHR 0x0A]
    \<and> errorsTotal (metrics p) ''api_proxy_error'' = Some 1
    \<and> errorsTotal (metrics p) ''api_no_healthy_upstream'' = None"
proof -
  obtain p0 where p0: "downProxy = Some p0" by (simp add: downProxy_state)
  have h: "map_option (\<lambda>lb. map Healthy (LoadBalancer_Targets lb)) (upstreams p0 ''backend'') = Some [False, False]"
    using p0 by (auto simp add: downProxy_state)
  from ServeHTTP_apiRequest [OF p0, of draw itoa] obtain w p env where r:
      "ServeHTTP asciiLower (\<lambda>x. x) draw itoa refusedForward apiRequest (newResponseWriter, p0, frozenClock)
         = Some (Return (w, p, env))"
      "rateLimitHits (metrics p) = Map.empty" "rwStatus w = Some 502"
      "rwBody w = ''Bad Gateway'' @ [CHR 0x0A]"
      "errorsTotal (metrics p) ''api_proxy_error'' = Some 1"
      "errorsTotal (metrics p) ''api_no_healthy_upstream'' = None"
    by (auto split: option.splits outcome.splits)
  show ?thesis by (intro exI conjI) (rule p0 h r)+
qed


end
